theory Spec2Isabelle
  imports
    Main
    "HOL-Library.Multiset"
    "HOL-Library.Product_Lexorder"
    "HOL-Library.Char_ord"
    "HOL-Library.List_Lexorder"
begin

section \<open>The schema of \<^verbatim>\<open>server/sql/001_init.sql\<close>\<close>

text \<open>
  A table is the list of its rows, in whatever order the database holds them; every
  result below is stated for all such orders. Only the columns that the report queries
  read are kept. A \<^verbatim>\<open>uuid\<close> is an opaque identifier, compared by equality only. The
  type \<open>'t\<close> is SQL \<^verbatim>\<open>text\<close>; it is ordered by the collation of the database, of which
  the development uses only that it is a linear order. A nullable column is an
  \<open>option\<close>, \<open>None\<close> being SQL's null. The values of the \<^verbatim>\<open>integer\<close> columns and
  the \<^verbatim>\<open>bigint\<close> results of \<^verbatim>\<open>count\<close>, \<^verbatim>\<open>sum\<close> and \<^verbatim>\<open>dense_rank\<close> are mathematical
  integers; where the procedure returns them in \<^verbatim>\<open>integer\<close> columns, the range of that
  type is checked and a value outside it is an error of the query.
\<close>

type_synonym uuid = nat

text \<open>
  A parameter of a request is text. The database reads it as a \<^verbatim>\<open>uuid\<close> when it binds
  it to \<^verbatim>\<open>$1\<close> or \<^verbatim>\<open>$2\<close>; text that is not the text of a \<^verbatim>\<open>uuid\<close> makes the query fail.
\<close>

datatype uuid_text = Not_uuid | Uuid_text uuid

text \<open>
  The errors of a query: text that is not of the type of its parameter, and a value out
  of the range of the \<^verbatim>\<open>integer\<close> column that receives it.
\<close>

datatype db_error = invalid_text_representation | numeric_value_out_of_range

definition uuid_in :: "uuid_text \<Rightarrow> db_error + uuid" where
  "uuid_in t = (case t of Not_uuid \<Rightarrow> Inl invalid_text_representation | Uuid_text u \<Rightarrow> Inr u)"

definition int4 :: "int \<Rightarrow> bool" where
  "int4 v \<longleftrightarrow> - 2147483648 \<le> v \<and> v \<le> 2147483647"

record 't users_row =
  u_id :: uuid
  u_display_name :: 't

record 't competitions_row =
  c_id :: uuid
  c_title :: 't

record 't divisions_row =
  d_id :: uuid
  d_competition_id :: uuid
  d_name :: 't
  d_sort_order :: "int option"

record competition_participants_row =
  cp_competition_id :: uuid
  cp_user_id :: uuid
  cp_division_id :: "uuid option"

record problems_row =
  p_id :: uuid
  p_competition_id :: uuid
  p_division_id :: "uuid option"

record ascents_row =
  a_problem_id :: uuid
  a_user_id :: uuid
  a_topped :: bool
  a_top_attempts :: "int option"
  a_zone :: bool
  a_zone_attempts :: "int option"

record 't database =
  users :: "'t users_row list"
  competitions :: "'t competitions_row list"
  divisions :: "'t divisions_row list"
  competition_participants :: "competition_participants_row list"
  problems :: "problems_row list"
  ascents :: "ascents_row list"


section \<open>SQL aggregates and window functions\<close>

text \<open>\<^verbatim>\<open>count(*) filter (where c)\<close>: the number of rows of the group on which \<open>c\<close> is true.\<close>

definition count_filter :: "('a \<Rightarrow> bool) \<Rightarrow> 'a list \<Rightarrow> int" where
  "count_filter c rows = int (length (filter c rows))"

text \<open>\<^verbatim>\<open>sum(x)\<close> skips nulls, and is null when the group has no value that is not null.\<close>

fun sql_sum :: "int option list \<Rightarrow> int option" where
  "sql_sum [] = None"
| "sql_sum (None # vs) = sql_sum vs"
| "sql_sum (Some v # vs) = (case sql_sum vs of None \<Rightarrow> Some v | Some s \<Rightarrow> Some (v + s))"

definition coalesce :: "'a option \<Rightarrow> 'a \<Rightarrow> 'a" where
  "coalesce v d = (case v of None \<Rightarrow> d | Some x \<Rightarrow> x)"

text \<open>
  \<^verbatim>\<open>dense_rank() over (order by key)\<close> on one partition: the rows are sorted by the key;
  the first row has rank 1, and a row has the rank of the row before it when the two are
  peers (equal keys), one more otherwise.
\<close>

fun assign_ranks :: "('a \<Rightarrow> 'k) \<Rightarrow> 'k \<Rightarrow> int \<Rightarrow> 'a list \<Rightarrow> ('a \<times> int) list" where
  "assign_ranks key prev r [] = []"
| "assign_ranks key prev r (x # xs) =
     (let r' = (if key x = prev then r else r + 1)
      in (x, r') # assign_ranks key (key x) r' xs)"

definition dense_rank :: "('a \<Rightarrow> 'k::linorder) \<Rightarrow> 'a list \<Rightarrow> ('a \<times> int) list" where
  "dense_rank key rows =
     (case sort_key key rows of
        [] \<Rightarrow> []
      | x # xs \<Rightarrow> (x, 1) # assign_ranks key (key x) 1 xs)"


section \<open>The stored procedure \<^verbatim>\<open>competition_division_podiums\<close>\<close>

record 't dp_row =
  dp_problem_id :: uuid
  dp_division_id :: uuid
  dp_division_name :: 't

record 't per_user_row =
  pu_division_id :: uuid
  pu_division_name :: 't
  pu_user_id :: uuid
  pu_total_tops :: int
  pu_total_zones :: int
  pu_total_top_attempts :: int
  pu_total_zone_attempts :: int

text \<open>The rows of the CTE \<^verbatim>\<open>ranked\<close> and of the procedure's result (\<^verbatim>\<open>PodiumRow\<close>).\<close>

record 't podium_row =
  pr_competition_id :: uuid
  pr_division_id :: uuid
  pr_division_name :: 't
  pr_user_id :: uuid
  pr_user_display_name :: 't
  pr_rank :: int
  pr_total_tops :: int
  pr_total_zones :: int
  pr_total_top_attempts :: int
  pr_total_zone_attempts :: int

text \<open>
  \<^verbatim>\<open>division_problems\<close>: problems joined to divisions on \<^verbatim>\<open>d.id = p.division_id\<close>, kept
  when the problem is of the competition. The selected \<^verbatim>\<open>p.division_id\<close> is the \<open>d_id\<close>
  of the joined division; a problem whose division is null joins nothing.
\<close>

definition division_problems :: "'t database \<Rightarrow> uuid \<Rightarrow> 't dp_row list" where
  "division_problems db competition_id =
     [\<lparr>dp_problem_id = p_id p, dp_division_id = d_id d, dp_division_name = d_name d\<rparr>.
        p \<leftarrow> problems db, d \<leftarrow> divisions db,
        p_division_id p = Some (d_id d), p_competition_id p = competition_id]"

text \<open>The join of \<^verbatim>\<open>per_user\<close>, before grouping.\<close>

definition per_user_join :: "'t database \<Rightarrow> uuid \<Rightarrow> ('t dp_row \<times> ascents_row) list" where
  "per_user_join db competition_id =
     [(dp, a). dp \<leftarrow> division_problems db competition_id, a \<leftarrow> ascents db,
        a_problem_id a = dp_problem_id dp]"

definition group_key :: "'t dp_row \<times> ascents_row \<Rightarrow> uuid \<times> 't \<times> uuid" where
  "group_key = (\<lambda>(dp, a). (dp_division_id dp, dp_division_name dp, a_user_id a))"

text \<open>The aggregates of one group, from the ascents of its rows.\<close>

definition tally :: "uuid \<times> 't \<times> uuid \<Rightarrow> ascents_row list \<Rightarrow> 't per_user_row" where
  "tally g rows =
     (case g of (did, dname, uid) \<Rightarrow>
        \<lparr>pu_division_id = did, pu_division_name = dname, pu_user_id = uid,
         pu_total_tops = count_filter a_topped rows,
         pu_total_zones = count_filter a_zone rows,
         pu_total_top_attempts = coalesce (sql_sum (map a_top_attempts rows)) 0,
         pu_total_zone_attempts = coalesce (sql_sum (map a_zone_attempts rows)) 0\<rparr>)"

text \<open>\<^verbatim>\<open>per_user\<close>: one row per group of \<^verbatim>\<open>(division_id, division_name, user_id)\<close>.\<close>

definition per_user :: "'t database \<Rightarrow> uuid \<Rightarrow> 't per_user_row list" where
  "per_user db competition_id =
     (let j = per_user_join db competition_id
      in map (\<lambda>g. tally g (map snd (filter (\<lambda>r. group_key r = g) j)))
             (remdups (map group_key j)))"

text \<open>
  The window's order: \<^verbatim>\<open>total_tops desc, total_zones desc, total_top_attempts asc,
  total_zone_attempts asc, display_name asc\<close>. A descending integer column is the
  ascending order of its negation.
\<close>

definition rank_key :: "'t per_user_row \<times> 't users_row \<Rightarrow> int \<times> int \<times> int \<times> int \<times> 't" where
  "rank_key = (\<lambda>(p, u). (- pu_total_tops p, - pu_total_zones p,
                          pu_total_top_attempts p, pu_total_zone_attempts p,
                          u_display_name u))"

definition ranked_row :: "uuid \<Rightarrow> ('t per_user_row \<times> 't users_row) \<times> int \<Rightarrow> 't podium_row" where
  "ranked_row competition_id = (\<lambda>((p, u), rnk).
     \<lparr>pr_competition_id = competition_id,
      pr_division_id = pu_division_id p,
      pr_division_name = pu_division_name p,
      pr_user_id = u_id u,
      pr_user_display_name = u_display_name u,
      pr_rank = rnk,
      pr_total_tops = pu_total_tops p,
      pr_total_zones = pu_total_zones p,
      pr_total_top_attempts = pu_total_top_attempts p,
      pr_total_zone_attempts = pu_total_zone_attempts p\<rparr>)"

text \<open>\<^verbatim>\<open>per_user\<close> joined to \<^verbatim>\<open>users\<close> on \<^verbatim>\<open>u.id = p.user_id\<close>.\<close>

definition ranked_join :: "('t::linorder) database \<Rightarrow> uuid \<Rightarrow> ('t per_user_row \<times> 't users_row) list" where
  "ranked_join db competition_id =
     [(p, u). p \<leftarrow> per_user db competition_id, u \<leftarrow> users db, u_id u = pu_user_id p]"

text \<open>\<^verbatim>\<open>ranked\<close>: the window is partitioned by \<^verbatim>\<open>p.division_id\<close>.\<close>

definition ranked :: "('t::linorder) database \<Rightarrow> uuid \<Rightarrow> 't podium_row list" where
  "ranked db competition_id =
     (let j = ranked_join db competition_id
      in concat (map (\<lambda>did. map (ranked_row competition_id)
                                (dense_rank rank_key (filter (\<lambda>r. pu_division_id (fst r) = did) j)))
                     (remdups (map (\<lambda>r. pu_division_id (fst r)) j))))"

text \<open>The key of the window of \<^verbatim>\<open>ranked\<close>, read off a ranked row.\<close>

definition window_key :: "'t podium_row \<Rightarrow> int \<times> int \<times> int \<times> int \<times> 't" where
  "window_key r = (- pr_total_tops r, - pr_total_zones r, pr_total_top_attempts r,
                   pr_total_zone_attempts r, pr_user_display_name r)"

text \<open>
  The final select: \<^verbatim>\<open>where rnk <= _max_rank order by division_name, rank,
  user_display_name\<close>. Rows that agree on the three columns come in the order of a stable
  sort of \<^verbatim>\<open>ranked\<close>; no result below depends on it.
\<close>

definition final_select :: "('t::linorder) database \<Rightarrow> uuid \<Rightarrow> int \<Rightarrow> 't podium_row list" where
  "final_select db competition_id max_rank =
     sort_key (\<lambda>r. (pr_division_name r, pr_rank r, pr_user_display_name r))
       (filter (\<lambda>r. pr_rank r \<le> max_rank) (ranked db competition_id))"

text \<open>
  The procedure returns \<^verbatim>\<open>rank\<close> and the four totals in columns declared \<^verbatim>\<open>integer\<close>,
  while \<^verbatim>\<open>dense_rank\<close>, \<^verbatim>\<open>count\<close> and \<^verbatim>\<open>sum\<close> give \<^verbatim>\<open>bigint\<close>: each row of the final
  select is cast on return, and the call fails when a value of a returned row does not
  fit. The rows that the \<^verbatim>\<open>where\<close> drops are not cast.
\<close>

definition fits_integer :: "'t podium_row \<Rightarrow> bool" where
  "fits_integer r \<longleftrightarrow>
     int4 (pr_rank r) \<and> int4 (pr_total_tops r) \<and> int4 (pr_total_zones r)
     \<and> int4 (pr_total_top_attempts r) \<and> int4 (pr_total_zone_attempts r)"

definition competition_division_podiums ::
  "('t::linorder) database \<Rightarrow> uuid \<Rightarrow> int \<Rightarrow> db_error + 't podium_row list" where
  "competition_division_podiums db competition_id max_rank =
     (let rows = final_select db competition_id max_rank
      in if list_all fits_integer rows then Inr rows else Inl numeric_value_out_of_range)"


section \<open>The route \<^verbatim>\<open>GET /api/reports/competition/:id/summary\<close> (\<^verbatim>\<open>routes/reports.ts\<close>)\<close>

text \<open>
  The answers of the handler that are not a report: 404, and the error of a query, which
  the handler passes to \<^verbatim>\<open>next\<close> (500).
\<close>

datatype error = NotFound | Thrown db_error

record 't division_summary_row =
  division_id :: uuid
  division_name :: 't
  participant_count :: int
  problem_count :: int
  total_tops :: int
  total_zones :: int

record 't standing =
  st_user_id :: uuid
  st_user_display_name :: 't
  st_rank :: int
  st_total_tops :: int
  st_total_zones :: int
  st_total_top_attempts :: int
  st_total_zone_attempts :: int

text \<open>A division of the report is its summary row spread into an object with a podium.\<close>

record 't division_report = "'t division_summary_row" +
  podium :: "'t standing list"

record 't competition_info =
  ci_id :: uuid
  ci_title :: 't

record 't competition_report =
  competition :: "'t competition_info"
  cr_divisions :: "'t division_report list"

text \<open>
  The sub-select of \<^verbatim>\<open>participant_count\<close>: the \<^verbatim>\<open>UNION\<close> of the joined participants of the
  division and of the users with an ascent on one of its problems; a \<^verbatim>\<open>UNION\<close> keeps one
  copy of each row. A null \<^verbatim>\<open>division_id\<close> equals no division.
\<close>

definition du :: "'t database \<Rightarrow> uuid \<Rightarrow> 't divisions_row \<Rightarrow> uuid list" where
  "du db competition_id d =
     remdups
       ([cp_user_id cp. cp \<leftarrow> competition_participants db,
           cp_competition_id cp = competition_id \<and> cp_division_id cp = Some (d_id d)]
        @ [a_user_id a. p \<leftarrow> problems db, a \<leftarrow> ascents db, a_problem_id a = p_id p,
           p_competition_id p = competition_id \<and> p_division_id p = Some (d_id d)])"

text \<open>\<^verbatim>\<open>COUNT(DISTINCT x)\<close> and \<^verbatim>\<open>COUNT(*)\<close> of a scalar sub-select.\<close>

definition count_distinct :: "'a list \<Rightarrow> int option" where
  "count_distinct xs = Some (int (length (remdups xs)))"

definition count_star :: "'a list \<Rightarrow> int option" where
  "count_star xs = Some (int (length xs))"

text \<open>
  \<^verbatim>\<open>problems p LEFT JOIN ascents a ON a.problem_id = p.id\<close>: a problem without ascent gives
  one row whose ascent columns are null.
\<close>

definition problems_left_join_ascents :: "'t database \<Rightarrow> (problems_row \<times> ascents_row option) list" where
  "problems_left_join_ascents db =
     concat (map (\<lambda>p. case filter (\<lambda>a. a_problem_id a = p_id p) (ascents db) of
                         [] \<Rightarrow> [(p, None)]
                       | as \<Rightarrow> map (\<lambda>a. (p, Some a)) as)
                 (problems db))"

text \<open>A boolean column of the nullable side in a \<^verbatim>\<open>WHERE\<close>: null is not true.\<close>

definition is_true :: "(ascents_row \<Rightarrow> bool) \<Rightarrow> ascents_row option \<Rightarrow> bool" where
  "is_true col a = (case a of None \<Rightarrow> False | Some r \<Rightarrow> col r)"

definition summary_row :: "'t database \<Rightarrow> uuid \<Rightarrow> 't divisions_row \<Rightarrow> 't division_summary_row" where
  "summary_row db competition_id d =
     \<lparr>division_id = d_id d,
      division_name = d_name d,
      participant_count = coalesce (count_distinct (du db competition_id d)) 0,
      problem_count =
        coalesce (count_star [p \<leftarrow> problems db.
                    p_competition_id p = competition_id \<and> p_division_id p = Some (d_id d)]) 0,
      total_tops =
        coalesce (count_star [pa \<leftarrow> problems_left_join_ascents db.
                    p_competition_id (fst pa) = competition_id
                    \<and> p_division_id (fst pa) = Some (d_id d) \<and> is_true a_topped (snd pa)]) 0,
      total_zones =
        coalesce (count_star [pa \<leftarrow> problems_left_join_ascents db.
                    p_competition_id (fst pa) = competition_id
                    \<and> p_division_id (fst pa) = Some (d_id d) \<and> is_true a_zone (snd pa)]) 0\<rparr>"

text \<open>\<^verbatim>\<open>ORDER BY d.sort_order NULLS LAST, d.name\<close>.\<close>

definition division_order :: "'t divisions_row \<Rightarrow> (bool \<times> int) \<times> 't" where
  "division_order d =
     ((case d_sort_order d of None \<Rightarrow> (True, 0) | Some n \<Rightarrow> (False, n)), d_name d)"

text \<open>
  The request's \<^verbatim>\<open>division_id\<close> is \<open>None\<close> when the query parameter is absent or empty:
  the test \<^verbatim>\<open>if (division_id)\<close> fails, no clause is added and no parameter pushed.
  Otherwise its text is pushed as \<^verbatim>\<open>$2\<close>, which the database reads as a \<^verbatim>\<open>uuid\<close>.
\<close>

definition division_id_param :: "uuid_text option \<Rightarrow> db_error + uuid option" where
  "division_id_param division_id_text =
     (case division_id_text of
        None \<Rightarrow> Inr None
      | Some t \<Rightarrow> (case uuid_in t of Inl e \<Rightarrow> Inl e | Inr f \<Rightarrow> Inr (Some f)))"

text \<open>
  Step 2 of the handler: \<^verbatim>\<open>summarySql\<close>, with \<^verbatim>\<open>AND d.id = $2\<close> when there is a filter, and
  its rows \<^verbatim>\<open>summaries\<close>.
\<close>

definition summarySql :: "('t::linorder) database \<Rightarrow> uuid \<Rightarrow> uuid option \<Rightarrow> 't division_summary_row list" where
  "summarySql db competition_id f =
     map (summary_row db competition_id)
       (sort_key division_order
          [d \<leftarrow> divisions db.
             d_competition_id d = competition_id
             \<and> (case f of None \<Rightarrow> True | Some x \<Rightarrow> d_id d = x)])"

definition summaries ::
  "('t::linorder) database \<Rightarrow> uuid \<Rightarrow> uuid_text option \<Rightarrow> db_error + 't division_summary_row list" where
  "summaries db competition_id division_id_text =
     (case division_id_param division_id_text of
        Inl e \<Rightarrow> Inl e
      | Inr f \<Rightarrow> Inr (summarySql db competition_id f))"

text \<open>
  Step 3 of the handler: \<^verbatim>\<open>podiumSql\<close> selects from the rows of the procedure, called
  with 3 as \<^verbatim>\<open>_max_rank\<close>, all of them or those \<^verbatim>\<open>WHERE division_id = $2\<close>, in the
  procedure's order. The procedure is evaluated in full before the outer \<^verbatim>\<open>WHERE\<close>.
\<close>

definition podiumSql :: "'t podium_row list \<Rightarrow> uuid option \<Rightarrow> 't podium_row list" where
  "podiumSql rows f =
     (case f of None \<Rightarrow> rows | Some x \<Rightarrow> [p \<leftarrow> rows. pr_division_id p = x])"

definition podiumRows ::
  "('t::linorder) database \<Rightarrow> uuid \<Rightarrow> uuid_text option \<Rightarrow> db_error + 't podium_row list" where
  "podiumRows db competition_id division_id_text =
     (case division_id_param division_id_text of
        Inl e \<Rightarrow> Inl e
      | Inr f \<Rightarrow>
          (case competition_division_podiums db competition_id 3 of
             Inl e \<Rightarrow> Inl e
           | Inr rows \<Rightarrow> Inr (podiumSql rows f)))"

text \<open>
  Step 4: each summary row gets as podium the podium rows of its division, filtered and
  mapped in their order, each reduced to the fields of a standing.
\<close>

definition standing_of :: "'t podium_row \<Rightarrow> 't standing" where
  "standing_of p =
     \<lparr>st_user_id = pr_user_id p,
      st_user_display_name = pr_user_display_name p,
      st_rank = pr_rank p,
      st_total_tops = pr_total_tops p,
      st_total_zones = pr_total_zones p,
      st_total_top_attempts = pr_total_top_attempts p,
      st_total_zone_attempts = pr_total_zone_attempts p\<rparr>"

definition combine :: "'t podium_row list \<Rightarrow> 't division_summary_row \<Rightarrow> 't division_report" where
  "combine rows s =
     \<lparr>division_id = division_id s,
      division_name = division_name s,
      participant_count = participant_count s,
      problem_count = problem_count s,
      total_tops = total_tops s,
      total_zones = total_zones s,
      podium = map standing_of (filter (\<lambda>p. pr_division_id p = division_id s) rows)\<rparr>"

text \<open>
  The handler. Step 1 selects the competition by the \<^verbatim>\<open>:id\<close> of the path; without a
  first row the answer is 404 \<^verbatim>\<open>Competition not found\<close>. Steps 2 and 3 run the two
  queries and step 4 combines their rows into the report, with the identifier and title
  of the row of step 1. A query that fails throws, and the \<^verbatim>\<open>catch\<close> hands the error on.
\<close>

definition competition_summary ::
  "('t::linorder) database \<Rightarrow> uuid_text \<Rightarrow> uuid_text option \<Rightarrow> error + 't competition_report" where
  "competition_summary db id_param division_id_text =
     (case uuid_in id_param of
        Inl e \<Rightarrow> Inl (Thrown e)
      | Inr competition_id \<Rightarrow>
          (case [c \<leftarrow> competitions db. c_id c = competition_id] of
             [] \<Rightarrow> Inl NotFound
           | comp_row # _ \<Rightarrow>
               (case summaries db competition_id division_id_text of
                  Inl e \<Rightarrow> Inl (Thrown e)
                | Inr summary_rows \<Rightarrow>
                    (case podiumRows db competition_id division_id_text of
                       Inl e \<Rightarrow> Inl (Thrown e)
                     | Inr podium_rows \<Rightarrow>
                         Inr \<lparr>competition = \<lparr>ci_id = c_id comp_row, ci_title = c_title comp_row\<rparr>,
                              cr_divisions = map (combine podium_rows) summary_rows\<rparr>))))"


section \<open>The rules of the report in the words of its specification\<close>

text \<open>
  The ascents of a user on the problems of a division of the competition, as the
  specification of the tally describes them.
\<close>

definition user_ascents :: "'t database \<Rightarrow> uuid \<Rightarrow> uuid \<Rightarrow> uuid \<Rightarrow> ascents_row list" where
  "user_ascents db competition_id did uid =
     [a \<leftarrow> ascents db.
        a_user_id a = uid
        \<and> (\<exists>p\<in>set (problems db). p_id p = a_problem_id a
               \<and> p_competition_id p = competition_id \<and> p_division_id p = Some did)]"

text \<open>
  The five stages of the ranking key: more tops, then more zones, then fewer attempts to
  top, then fewer attempts to zone, then the smaller display name.
\<close>

definition ranks_before :: "('t::linorder) podium_row \<Rightarrow> 't podium_row \<Rightarrow> bool" where
  "ranks_before r1 r2 \<longleftrightarrow>
     pr_total_tops r1 > pr_total_tops r2
     \<or> (pr_total_tops r1 = pr_total_tops r2
        \<and> (pr_total_zones r1 > pr_total_zones r2
           \<or> (pr_total_zones r1 = pr_total_zones r2
              \<and> (pr_total_top_attempts r1 < pr_total_top_attempts r2
                 \<or> (pr_total_top_attempts r1 = pr_total_top_attempts r2
                    \<and> (pr_total_zone_attempts r1 < pr_total_zone_attempts r2
                       \<or> (pr_total_zone_attempts r1 = pr_total_zone_attempts r2
                          \<and> pr_user_display_name r1 < pr_user_display_name r2)))))))"

definition four_tuple :: "'t podium_row \<Rightarrow> int \<times> int \<times> int \<times> int" where
  "four_tuple r =
     (pr_total_tops r, pr_total_zones r, pr_total_top_attempts r, pr_total_zone_attempts r)"

definition five_tuple :: "'t podium_row \<Rightarrow> int \<times> int \<times> int \<times> int \<times> 't" where
  "five_tuple r =
     (pr_total_tops r, pr_total_zones r, pr_total_top_attempts r, pr_total_zone_attempts r,
      pr_user_display_name r)"

text \<open>
  The dense rank with ties of the specification: the numeric key has four stages, users
  with the same 4-tuple share a rank, and the next distinct 4-tuple has one more. The
  rank of a row among the rows of its division is one more than the number of distinct
  4-tuples that rank before its own.
\<close>

definition ranks_before4 :: "int \<times> int \<times> int \<times> int \<Rightarrow> int \<times> int \<times> int \<times> int \<Rightarrow> bool" where
  "ranks_before4 = (\<lambda>(t1, z1, ta1, za1) (t2, z2, ta2, za2).
     t1 > t2 \<or> (t1 = t2 \<and> (z1 > z2 \<or> (z1 = z2 \<and> (ta1 < ta2 \<or> (ta1 = ta2 \<and> za1 < za2))))))"

definition spec_dense_rank :: "'t podium_row list \<Rightarrow> 't podium_row \<Rightarrow> int" where
  "spec_dense_rank rows r =
     1 + int (length (remdups (map four_tuple
           [r' \<leftarrow> rows. pr_division_id r' = pr_division_id r
                        \<and> ranks_before4 (four_tuple r') (four_tuple r)])))"

text \<open>The order of a podium: by rank, then by display name.\<close>

definition podium_le :: "('t::linorder) standing \<Rightarrow> 't standing \<Rightarrow> bool" where
  "podium_le s1 s2 \<longleftrightarrow>
     st_rank s1 < st_rank s2
     \<or> (st_rank s1 = st_rank s2 \<and> st_user_display_name s1 \<le> st_user_display_name s2)"

text \<open>The order of the divisions: by sort key with nulls last, then by name.\<close>

definition division_le :: "('t::linorder) divisions_row \<Rightarrow> 't divisions_row \<Rightarrow> bool" where
  "division_le d1 d2 =
     (case (d_sort_order d1, d_sort_order d2) of
        (Some m, Some n) \<Rightarrow> m < n \<or> (m = n \<and> d_name d1 \<le> d_name d2)
      | (Some m, None) \<Rightarrow> True
      | (None, Some n) \<Rightarrow> False
      | (None, None) \<Rightarrow> d_name d1 \<le> d_name d2)"


text \<open>The database without the problems whose identifier is in \<open>X\<close> and without their ascents.\<close>

definition without_problems :: "'t database \<Rightarrow> uuid set \<Rightarrow> 't database" where
  "without_problems db X =
     db\<lparr>problems := [p \<leftarrow> problems db. p_id p \<notin> X],
        ascents := [a \<leftarrow> ascents db. a_problem_id a \<notin> X]\<rparr>"


section \<open>The scenarios of the specification as databases\<close>

text \<open>
  Scenario B: in division Open, Alice and Bob both have 2 tops, 1 zone, 3 attempts to top
  and 1 attempt to zone; Carol has 1 top, 1 zone, 2 and 1 attempts.
\<close>

definition scenario_B :: "string database" where
  "scenario_B =
     \<lparr>users = [\<lparr>u_id = 1, u_display_name = ''Alice''\<rparr>,
               \<lparr>u_id = 2, u_display_name = ''Bob''\<rparr>,
               \<lparr>u_id = 3, u_display_name = ''Carol''\<rparr>],
      competitions = [\<lparr>c_id = 1, c_title = ''Spring Open''\<rparr>],
      divisions = [\<lparr>d_id = 1, d_competition_id = 1, d_name = ''Open'', d_sort_order = None\<rparr>],
      competition_participants = [],
      problems = [\<lparr>p_id = 1, p_competition_id = 1, p_division_id = Some 1\<rparr>,
                  \<lparr>p_id = 2, p_competition_id = 1, p_division_id = Some 1\<rparr>],
      ascents =
        [\<lparr>a_problem_id = 1, a_user_id = 1, a_topped = True, a_top_attempts = Some 1,
            a_zone = True, a_zone_attempts = Some 1\<rparr>,
         \<lparr>a_problem_id = 2, a_user_id = 1, a_topped = True, a_top_attempts = Some 2,
            a_zone = False, a_zone_attempts = None\<rparr>,
         \<lparr>a_problem_id = 1, a_user_id = 2, a_topped = True, a_top_attempts = Some 2,
            a_zone = True, a_zone_attempts = Some 1\<rparr>,
         \<lparr>a_problem_id = 2, a_user_id = 2, a_topped = True, a_top_attempts = Some 1,
            a_zone = False, a_zone_attempts = None\<rparr>,
         \<lparr>a_problem_id = 1, a_user_id = 3, a_topped = True, a_top_attempts = Some 2,
            a_zone = True, a_zone_attempts = Some 1\<rparr>]\<rparr>"

text \<open>
  Scenarios C, D and E in one database. Competition 1 has the divisions Masters (one
  problem, no ascent, Bob registered), Youth (nothing at all) and Open (one problem; Alice
  registered and climbing, Carol climbing without having joined), and problem 3 without
  division, on which Bob has a top. Division 20 belongs to competition 2.
\<close>

definition scenario_CDE :: "string database" where
  "scenario_CDE =
     \<lparr>users = [\<lparr>u_id = 1, u_display_name = ''Alice''\<rparr>,
               \<lparr>u_id = 2, u_display_name = ''Bob''\<rparr>,
               \<lparr>u_id = 3, u_display_name = ''Carol''\<rparr>],
      competitions = [\<lparr>c_id = 1, c_title = ''Spring Open''\<rparr>,
                      \<lparr>c_id = 2, c_title = ''Winter Cup''\<rparr>],
      divisions =
        [\<lparr>d_id = 11, d_competition_id = 1, d_name = ''Masters'', d_sort_order = None\<rparr>,
         \<lparr>d_id = 20, d_competition_id = 2, d_name = ''Open'', d_sort_order = None\<rparr>,
         \<lparr>d_id = 12, d_competition_id = 1, d_name = ''Youth'', d_sort_order = Some 1\<rparr>,
         \<lparr>d_id = 10, d_competition_id = 1, d_name = ''Open'', d_sort_order = Some 1\<rparr>],
      competition_participants =
        [\<lparr>cp_competition_id = 1, cp_user_id = 2, cp_division_id = Some 11\<rparr>,
         \<lparr>cp_competition_id = 1, cp_user_id = 1, cp_division_id = Some 10\<rparr>],
      problems = [\<lparr>p_id = 1, p_competition_id = 1, p_division_id = Some 10\<rparr>,
                  \<lparr>p_id = 2, p_competition_id = 1, p_division_id = Some 11\<rparr>,
                  \<lparr>p_id = 3, p_competition_id = 1, p_division_id = None\<rparr>],
      ascents =
        [\<lparr>a_problem_id = 1, a_user_id = 1, a_topped = True, a_top_attempts = Some 2,
            a_zone = True, a_zone_attempts = Some 1\<rparr>,
         \<lparr>a_problem_id = 1, a_user_id = 3, a_topped = False, a_top_attempts = None,
            a_zone = True, a_zone_attempts = Some 3\<rparr>,
         \<lparr>a_problem_id = 3, a_user_id = 2, a_topped = True, a_top_attempts = Some 1,
            a_zone = True, a_zone_attempts = Some 1\<rparr>]\<rparr>"

text \<open>
  Four users with the same numbers and different names: one top in two attempts and one
  zone in one attempt each.
\<close>

definition scenario_four_tied :: "string database" where
  "scenario_four_tied =
     \<lparr>users = [\<lparr>u_id = 1, u_display_name = ''Ann''\<rparr>,
               \<lparr>u_id = 2, u_display_name = ''Ben''\<rparr>,
               \<lparr>u_id = 3, u_display_name = ''Cy''\<rparr>,
               \<lparr>u_id = 4, u_display_name = ''Di''\<rparr>],
      competitions = [\<lparr>c_id = 1, c_title = ''Spring Open''\<rparr>],
      divisions = [\<lparr>d_id = 1, d_competition_id = 1, d_name = ''Open'', d_sort_order = None\<rparr>],
      competition_participants = [],
      problems = [\<lparr>p_id = 1, p_competition_id = 1, p_division_id = Some 1\<rparr>],
      ascents =
        [\<lparr>a_problem_id = 1, a_user_id = 4, a_topped = True, a_top_attempts = Some 2,
            a_zone = True, a_zone_attempts = Some 1\<rparr>,
         \<lparr>a_problem_id = 1, a_user_id = 3, a_topped = True, a_top_attempts = Some 2,
            a_zone = True, a_zone_attempts = Some 1\<rparr>,
         \<lparr>a_problem_id = 1, a_user_id = 2, a_topped = True, a_top_attempts = Some 2,
            a_zone = True, a_zone_attempts = Some 1\<rparr>,
         \<lparr>a_problem_id = 1, a_user_id = 1, a_topped = True, a_top_attempts = Some 2,
            a_zone = True, a_zone_attempts = Some 1\<rparr>]\<rparr>"

text \<open>
  Attempts as large as the column holds: Alice has topped problem 1 in 2147483647
  attempts and problem 2 in one. Division 20 belongs to competition 2.
\<close>

definition scenario_overflow :: "string database" where
  "scenario_overflow =
     \<lparr>users = [\<lparr>u_id = 1, u_display_name = ''Alice''\<rparr>],
      competitions = [\<lparr>c_id = 1, c_title = ''Spring Open''\<rparr>,
                      \<lparr>c_id = 2, c_title = ''Winter Cup''\<rparr>],
      divisions = [\<lparr>d_id = 1, d_competition_id = 1, d_name = ''Open'', d_sort_order = None\<rparr>,
                   \<lparr>d_id = 20, d_competition_id = 2, d_name = ''Open'', d_sort_order = None\<rparr>],
      competition_participants = [],
      problems = [\<lparr>p_id = 1, p_competition_id = 1, p_division_id = Some 1\<rparr>,
                  \<lparr>p_id = 2, p_competition_id = 1, p_division_id = Some 1\<rparr>],
      ascents =
        [\<lparr>a_problem_id = 1, a_user_id = 1, a_topped = True, a_top_attempts = Some 2147483647,
            a_zone = False, a_zone_attempts = None\<rparr>,
         \<lparr>a_problem_id = 2, a_user_id = 1, a_topped = True, a_top_attempts = Some 1,
            a_zone = False, a_zone_attempts = None\<rparr>]\<rparr>"

text \<open>
  A tie across the cut: Ann and Ben are first and second, and three users who all show
  the name Sam share the third place with one top in two attempts each.
\<close>

definition scenario_tie :: "string database" where
  "scenario_tie =
     \<lparr>users = [\<lparr>u_id = 1, u_display_name = ''Ann''\<rparr>,
               \<lparr>u_id = 2, u_display_name = ''Ben''\<rparr>,
               \<lparr>u_id = 3, u_display_name = ''Sam''\<rparr>,
               \<lparr>u_id = 4, u_display_name = ''Sam''\<rparr>,
               \<lparr>u_id = 5, u_display_name = ''Sam''\<rparr>,
               \<lparr>u_id = 6, u_display_name = ''Zoe''\<rparr>],
      competitions = [\<lparr>c_id = 1, c_title = ''Spring Open''\<rparr>],
      divisions = [\<lparr>d_id = 1, d_competition_id = 1, d_name = ''Open'', d_sort_order = None\<rparr>],
      competition_participants = [],
      problems = [\<lparr>p_id = 1, p_competition_id = 1, p_division_id = Some 1\<rparr>],
      ascents =
        [\<lparr>a_problem_id = 1, a_user_id = 6, a_topped = False, a_top_attempts = None,
            a_zone = False, a_zone_attempts = None\<rparr>,
         \<lparr>a_problem_id = 1, a_user_id = 5, a_topped = True, a_top_attempts = Some 2,
            a_zone = True, a_zone_attempts = Some 1\<rparr>,
         \<lparr>a_problem_id = 1, a_user_id = 4, a_topped = True, a_top_attempts = Some 2,
            a_zone = True, a_zone_attempts = Some 1\<rparr>,
         \<lparr>a_problem_id = 1, a_user_id = 3, a_topped = True, a_top_attempts = Some 2,
            a_zone = True, a_zone_attempts = Some 1\<rparr>,
         \<lparr>a_problem_id = 1, a_user_id = 2, a_topped = True, a_top_attempts = Some 1,
            a_zone = True, a_zone_attempts = Some 2\<rparr>,
         \<lparr>a_problem_id = 1, a_user_id = 1, a_topped = True, a_top_attempts = Some 1,
            a_zone = True, a_zone_attempts = Some 1\<rparr>]\<rparr>"


section \<open>Unfolding the queries on a concrete database\<close>

lemmas procedure_defs =
  competition_division_podiums_def final_select_def fits_integer_def int4_def ranked_def ranked_join_def per_user_def per_user_join_def
  division_problems_def group_key_def tally_def count_filter_def coalesce_def dense_rank_def
  rank_key_def ranked_row_def Let_def

lemmas route_defs =
  competition_summary_def uuid_in_def division_id_param_def summaries_def summarySql_def
  podiumRows_def podiumSql_def combine_def standing_of_def
  summary_row_def du_def count_distinct_def count_star_def problems_left_join_ascents_def
  is_true_def division_order_def


section \<open>Where the rows of the procedure come from\<close>

lemma map_fst_assign_ranks: "map fst (assign_ranks key prev r xs) = xs"
  by (induction xs arbitrary: prev r) (simp_all add: Let_def)

lemma map_fst_dense_rank: "map fst (dense_rank key rows) = sort_key key rows"
  by (simp add: dense_rank_def map_fst_assign_ranks split: list.splits)

lemma division_problems_iff:
  "dp \<in> set (division_problems db cid) \<longleftrightarrow>
     (\<exists>p\<in>set (problems db). \<exists>d\<in>set (divisions db).
        p_division_id p = Some (d_id d) \<and> p_competition_id p = cid
        \<and> dp = \<lparr>dp_problem_id = p_id p, dp_division_id = d_id d, dp_division_name = d_name d\<rparr>)"
  unfolding division_problems_def by (auto split: if_splits)

lemma per_user_join_set:
  "set (per_user_join db cid) =
     {(dp, a). dp \<in> set (division_problems db cid) \<and> a \<in> set (ascents db)
               \<and> a_problem_id a = dp_problem_id dp}"
  by (auto simp: per_user_join_def)

lemma tally_fields [simp]:
  "pu_division_id (tally (did, dname, uid) rows) = did"
  "pu_division_name (tally (did, dname, uid) rows) = dname"
  "pu_user_id (tally (did, dname, uid) rows) = uid"
  by (simp_all add: tally_def)

lemma per_user_elem:
  assumes "r \<in> set (per_user db cid)"
  obtains dp a where "(dp, a) \<in> set (per_user_join db cid)"
    "pu_division_id r = dp_division_id dp" "pu_division_name r = dp_division_name dp"
    "pu_user_id r = a_user_id a"
proof -
  from assms obtain g where g: "g \<in> group_key ` set (per_user_join db cid)"
    and r: "r = tally g (map snd (filter (\<lambda>x. group_key x = g) (per_user_join db cid)))"
    by (auto simp: per_user_def Let_def)
  from g obtain dp a where da: "(dp, a) \<in> set (per_user_join db cid)" "g = group_key (dp, a)"
    by auto
  show ?thesis
    using da r by (intro that [of dp a]) (simp_all add: group_key_def)
qed

lemma ranked_elem:
  assumes "r \<in> set (ranked db cid)"
  obtains p u rnk where "(p, u) \<in> set (ranked_join db cid)"
    "((p, u), rnk) \<in> set (dense_rank rank_key
        (filter (\<lambda>x. pu_division_id (fst x) = pu_division_id p) (ranked_join db cid)))"
    "r = ranked_row cid ((p, u), rnk)"
proof -
  from assms obtain did x where
    x: "x \<in> set (dense_rank rank_key (filter (\<lambda>x. pu_division_id (fst x) = did) (ranked_join db cid)))"
    and r: "r = ranked_row cid x"
    by (auto simp: ranked_def Let_def)
  obtain p u rnk where xe: "x = ((p, u), rnk)" by (metis surj_pair)
  have "fst x \<in> set (map fst (dense_rank rank_key (filter (\<lambda>x. pu_division_id (fst x) = did) (ranked_join db cid))))"
    using x by (simp del: map_fst_dense_rank)
  then have "(p, u) \<in> set (filter (\<lambda>x. pu_division_id (fst x) = did) (ranked_join db cid))"
    by (simp add: map_fst_dense_rank xe)
  then have pu: "(p, u) \<in> set (ranked_join db cid)" and did: "pu_division_id p = did" by auto
  show ?thesis using pu x r xe did by (intro that [of p u rnk]) simp_all
qed

lemma ranked_row_fields [simp]:
  "pr_division_id (ranked_row cid ((p, u), rnk)) = pu_division_id p"
  "pr_division_name (ranked_row cid ((p, u), rnk)) = pu_division_name p"
  "pr_user_id (ranked_row cid ((p, u), rnk)) = u_id u"
  "pr_user_display_name (ranked_row cid ((p, u), rnk)) = u_display_name u"
  "pr_rank (ranked_row cid ((p, u), rnk)) = rnk"
  by (simp_all add: ranked_row_def)

lemma ranked_join_set:
  "set (ranked_join db cid) =
     {(p, u). p \<in> set (per_user db cid) \<and> u \<in> set (users db) \<and> u_id u = pu_user_id p}"
  by (auto simp: ranked_join_def)

text \<open>Every ranked row of a division stems from an ascent on one of its problems.\<close>

lemma ranked_has_ascent:
  fixes db :: "('t::linorder) database"
  assumes "r \<in> set (ranked db cid)"
  shows "\<exists>p\<in>set (problems db). \<exists>a\<in>set (ascents db).
           a_problem_id a = p_id p \<and> p_competition_id p = cid
           \<and> p_division_id p = Some (pr_division_id r) \<and> a_user_id a = pr_user_id r"
proof -
  from assms obtain p u rnk where pu: "(p, u) \<in> set (ranked_join db cid)"
    and r: "r = ranked_row cid ((p, u), rnk)"
    by (rule ranked_elem)
  from pu have p: "p \<in> set (per_user db cid)" and u: "u_id u = pu_user_id p"
    by (auto simp: ranked_join_set)
  from p obtain dp a where da: "(dp, a) \<in> set (per_user_join db cid)"
    and f: "pu_division_id p = dp_division_id dp" "pu_user_id p = a_user_id a"
    by (rule per_user_elem)
  from da have dp: "dp \<in> set (division_problems db cid)" and a: "a \<in> set (ascents db)"
    and pa: "a_problem_id a = dp_problem_id dp"
    by (auto simp: per_user_join_set)
  from dp obtain q and d :: "'t divisions_row" where q: "q \<in> set (problems db)" "p_division_id q = Some (d_id d)"
    "p_competition_id q = cid"
    and dpe: "dp = \<lparr>dp_problem_id = p_id q, dp_division_id = d_id d, dp_division_name = d_name d\<rparr>"
    unfolding division_problems_iff by blast
  show ?thesis
    using q a pa f u by (intro bexI [of _ q] bexI [of _ a]) (simp_all add: r dpe)
qed

lemma final_select_set:
  "set (final_select db cid n) = {r \<in> set (ranked db cid). pr_rank r \<le> n}"
  by (auto simp: final_select_def)

lemma podiumSql_subset: "set (podiumSql (final_select db cid 3) f) \<subseteq> set (ranked db cid)"
  by (auto simp: podiumSql_def final_select_set split: option.splits)


section \<open>The route: not found, failures, and the shape of a report\<close>

lemma division_id_param_Inr:
  "division_id_param division_id_text = Inr f \<longleftrightarrow> division_id_text = map_option Uuid_text f"
proof (cases division_id_text)
  case None
  then show ?thesis by (auto simp: division_id_param_def)
next
  case (Some t)
  then show ?thesis
    by (cases t; cases f) (auto simp: division_id_param_def uuid_in_def)
qed

lemma division_id_param_well_formed:
  assumes "division_id_text \<noteq> Some Not_uuid"
  shows "\<exists>f. division_id_text = map_option Uuid_text f"
proof (cases division_id_text)
  case None
  then show ?thesis by simp
next
  case (Some t)
  with assms obtain x where "t = Uuid_text x" by (cases t) auto
  with Some have "division_id_text = map_option Uuid_text (Some x)" by simp
  then show ?thesis ..
qed

lemma competition_division_podiums_Inr:
  "competition_division_podiums db cid n = Inr rows \<longleftrightarrow>
     rows = final_select db cid n \<and> list_all fits_integer (final_select db cid n)"
  by (auto simp: competition_division_podiums_def Let_def)

lemma final_select_fits:
  "list_all fits_integer (final_select db cid n) \<longleftrightarrow>
     (\<forall>r\<in>set (ranked db cid). pr_rank r \<le> n \<longrightarrow> fits_integer r)"
  by (auto simp: list_all_iff final_select_set)

text \<open>The handler after step 1, for a competition that step 1 has found.\<close>

lemma competition_summary_steps:
  assumes "[c \<leftarrow> competitions db. c_id c = cid] = c # cs"
  shows "competition_summary db (Uuid_text cid) (map_option Uuid_text f) =
     (if list_all fits_integer (final_select db cid 3)
      then Inr \<lparr>competition = \<lparr>ci_id = c_id c, ci_title = c_title c\<rparr>,
                cr_divisions = map (combine (podiumSql (final_select db cid 3) f))
                                   (summarySql db cid f)\<rparr>
      else Inl (Thrown numeric_value_out_of_range))"
proof -
  have p: "division_id_param (map_option Uuid_text f) = Inr f"
    by (simp add: division_id_param_Inr)
  show ?thesis
    by (simp add: competition_summary_def uuid_in_def assms summaries_def podiumRows_def p
          competition_division_podiums_def Let_def)
qed

lemma competition_summary_Inr:
  assumes "competition_summary db (Uuid_text cid) division_id_text = Inr rep"
  obtains f where "division_id_text = map_option Uuid_text f"
    and "list_all fits_integer (final_select db cid 3)"
    and "cr_divisions rep = map (combine (podiumSql (final_select db cid 3) f)) (summarySql db cid f)"
    and "\<exists>c\<in>set (competitions db). c_id c = cid \<and> competition rep = \<lparr>ci_id = cid, ci_title = c_title c\<rparr>"
proof -
  obtain c cs where cs: "[c \<leftarrow> competitions db. c_id c = cid] = c # cs"
    using assms by (auto simp: competition_summary_def uuid_in_def split: list.splits)
  then have "c \<in> set [c \<leftarrow> competitions db. c_id c = cid]" by simp
  then have c: "c \<in> set (competitions db)" "c_id c = cid" by auto
  obtain f where f: "division_id_text = map_option Uuid_text f"
  proof (cases "division_id_param division_id_text")
    case (Inl e)
    with assms cs show ?thesis
      by (simp add: competition_summary_def uuid_in_def summaries_def)
  next
    case (Inr f)
    then show ?thesis using that by (simp add: division_id_param_Inr)
  qed
  from assms have fits: "list_all fits_integer (final_select db cid 3)"
    and rep: "rep = \<lparr>competition = \<lparr>ci_id = c_id c, ci_title = c_title c\<rparr>,
                cr_divisions = map (combine (podiumSql (final_select db cid 3) f))
                                   (summarySql db cid f)\<rparr>"
    unfolding f competition_summary_steps [OF cs] by (auto split: if_splits)
  show ?thesis
  proof (rule that [OF f fits])
    show "cr_divisions rep = map (combine (podiumSql (final_select db cid 3) f)) (summarySql db cid f)"
      by (simp add: rep)
    show "\<exists>c\<in>set (competitions db). c_id c = cid \<and> competition rep = \<lparr>ci_id = cid, ci_title = c_title c\<rparr>"
      using c rep by auto
  qed
qed

lemma competition_summary_NotFound:
  "(competition_summary db id_param division_id_text = Inl NotFound)
     = (\<exists>cid. id_param = Uuid_text cid \<and> \<not> (\<exists>c\<in>set (competitions db). c_id c = cid))"
proof (cases id_param)
  case Not_uuid
  then show ?thesis by (simp add: competition_summary_def uuid_in_def)
next
  case (Uuid_text cid)
  have "([c \<leftarrow> competitions db. c_id c = cid] = []) = (\<not> (\<exists>c\<in>set (competitions db). c_id c = cid))"
    by (auto simp: filter_empty_conv)
  then show ?thesis
    using Uuid_text
    by (auto simp: competition_summary_def uuid_in_def split: list.splits sum.splits)
qed

lemma competition_summary_returns:
  assumes "\<exists>c\<in>set (competitions db). c_id c = cid"
    and "list_all fits_integer (final_select db cid 3)"
  shows "\<exists>rep. competition_summary db (Uuid_text cid) (map_option Uuid_text f) = Inr rep"
proof -
  from assms(1) have "[c \<leftarrow> competitions db. c_id c = cid] \<noteq> []"
    by (auto simp: filter_empty_conv)
  then obtain c cs where "[c \<leftarrow> competitions db. c_id c = cid] = c # cs"
    by (cases "[c \<leftarrow> competitions db. c_id c = cid]") auto
  from competition_summary_steps [OF this, of f] assms(2) show ?thesis by simp
qed

lemma summarySql_filter_empty:
  assumes "\<not> (\<exists>d\<in>set (divisions db). d_competition_id d = cid \<and> d_id d = x)"
  shows "summarySql db cid (Some x) = []"
proof -
  have "[d \<leftarrow> divisions db. d_competition_id d = cid \<and> d_id d = x] = []"
    using assms by (auto simp: filter_empty_conv)
  then show ?thesis by (simp add: summarySql_def)
qed

text \<open>The scenarios in which no value of the podium rows is out of range.\<close>

lemma scenario_CDE_fits: "list_all fits_integer (final_select scenario_CDE 1 3)"
  by (simp add: scenario_CDE_def procedure_defs)

lemma scenario_CDE_returns:
  "\<exists>rep. competition_summary scenario_CDE (Uuid_text 1) (map_option Uuid_text f) = Inr rep"
  by (rule competition_summary_returns [OF _ scenario_CDE_fits]) (simp add: scenario_CDE_def)

text \<open>
  C5, as the handler has it. The answer is \<open>NotFound\<close> exactly when the identifier of the
  request is well-formed and no row of \<^verbatim>\<open>competitions\<close> has it. When the competition
  exists, the division filter is absent or well-formed, and the rank and the totals of
  every podium row of the competition fit the \<^verbatim>\<open>integer\<close> columns of the procedure, the
  handler returns a report, whatever the divisions, problems and ascents of the
  competition are.
\<close>

theorem not_found_iff_no_competition:
  "(competition_summary db id_param division_id_text = Inl NotFound)
     = (\<exists>cid. id_param = Uuid_text cid \<and> \<not> (\<exists>c\<in>set (competitions db). c_id c = cid))
   \<and> ((\<exists>c\<in>set (competitions db). c_id c = cid) \<and> division_id_text \<noteq> Some Not_uuid
        \<and> (\<forall>r\<in>set (ranked db cid). pr_rank r \<le> 3 \<longrightarrow> fits_integer r)
      \<longrightarrow> (\<exists>rep. competition_summary db (Uuid_text cid) division_id_text = Inr rep))"
proof (intro conjI impI)
  show "(competition_summary db id_param division_id_text = Inl NotFound)
     = (\<exists>cid. id_param = Uuid_text cid \<and> \<not> (\<exists>c\<in>set (competitions db). c_id c = cid))"
    by (rule competition_summary_NotFound)
next
  assume h: "(\<exists>c\<in>set (competitions db). c_id c = cid) \<and> division_id_text \<noteq> Some Not_uuid
        \<and> (\<forall>r\<in>set (ranked db cid). pr_rank r \<le> 3 \<longrightarrow> fits_integer r)"
  then obtain f where "division_id_text = map_option Uuid_text f"
    using division_id_param_well_formed by blast
  moreover from h have "list_all fits_integer (final_select db cid 3)"
    by (simp add: final_select_fits)
  ultimately show "\<exists>rep. competition_summary db (Uuid_text cid) division_id_text = Inr rep"
    using h competition_summary_returns by blast
qed

theorem not_found_iff_no_competition_witness:
  "competition_summary scenario_CDE (Uuid_text 3) None = Inl NotFound
   \<and> (\<exists>rep. competition_summary scenario_CDE (Uuid_text 1) None = Inr rep)"
proof -
  have 1: "\<not> (\<exists>c\<in>set (competitions scenario_CDE). c_id c = 3)"
    and 2: "\<exists>c\<in>set (competitions scenario_CDE). c_id c = 1"
    by (simp_all add: scenario_CDE_def)
  have 3: "\<forall>r\<in>set (ranked scenario_CDE 1). pr_rank r \<le> 3 \<longrightarrow> fits_integer r"
    using scenario_CDE_fits by (simp only: final_select_fits)
  from not_found_iff_no_competition [of scenario_CDE "Uuid_text 3" None 1] 1
  have "competition_summary scenario_CDE (Uuid_text 3) None = Inl NotFound" by simp
  moreover from not_found_iff_no_competition [of scenario_CDE "Uuid_text 1" None 1] 2 3
  have "\<exists>rep. competition_summary scenario_CDE (Uuid_text 1) None = Inr rep" by simp
  ultimately show ?thesis ..
qed

text \<open>
  C5 as stated fails: in the scenario with the large attempts, competition 1 exists and
  the handler answers with the error of the podium query, not with a report.
\<close>

theorem existing_competition_without_report_counterexample:
  "competition_summary scenario_overflow (Uuid_text 1) None = Inl (Thrown numeric_value_out_of_range)"
  by (simp add: scenario_overflow_def route_defs procedure_defs)

text \<open>
  C6, as the handler has it. For an existing competition and a well-formed division
  filter that selects no division of it (a division of another competition included),
  when the rank and the totals of every podium row of the competition fit the
  \<^verbatim>\<open>integer\<close> columns of the procedure, the handler returns a report that carries the
  competition's identifier and title and an empty list of divisions.
\<close>

theorem unresolved_filter_gives_empty_divisions:
  assumes "\<exists>c\<in>set (competitions db). c_id c = cid"
    and "\<not> (\<exists>d\<in>set (divisions db). d_competition_id d = cid \<and> d_id d = x)"
    and "\<forall>r\<in>set (ranked db cid). pr_rank r \<le> 3 \<longrightarrow> fits_integer r"
  shows "\<exists>rep. competition_summary db (Uuid_text cid) (Some (Uuid_text x)) = Inr rep
           \<and> cr_divisions rep = []
           \<and> ci_id (competition rep) = cid
           \<and> (\<exists>c\<in>set (competitions db). c_id c = cid \<and> ci_title (competition rep) = c_title c)"
proof -
  from assms(3) have "list_all fits_integer (final_select db cid 3)"
    by (simp add: final_select_fits)
  from competition_summary_returns [OF assms(1) this, of "Some x"]
  obtain rep where rep: "competition_summary db (Uuid_text cid) (Some (Uuid_text x)) = Inr rep"
    by auto
  from rep obtain f where f: "Some (Uuid_text x) = map_option Uuid_text f"
    and d: "cr_divisions rep = map (combine (podiumSql (final_select db cid 3) f)) (summarySql db cid f)"
    and c: "\<exists>c\<in>set (competitions db). c_id c = cid \<and> competition rep = \<lparr>ci_id = cid, ci_title = c_title c\<rparr>"
    by (rule competition_summary_Inr)
  from f have "f = Some x" by (cases f) auto
  with d have "cr_divisions rep = []"
    by (simp add: summarySql_filter_empty [OF assms(2)])
  moreover obtain c' where "c' \<in> set (competitions db)" "c_id c' = cid"
      "competition rep = \<lparr>ci_id = cid, ci_title = c_title c'\<rparr>"
    using c by blast
  ultimately show ?thesis using rep by auto
qed

theorem unresolved_filter_gives_empty_divisions_witness:
  "\<exists>rep. competition_summary scenario_CDE (Uuid_text 1) (Some (Uuid_text 20)) = Inr rep
         \<and> cr_divisions rep = []
         \<and> ci_id (competition rep) = 1 \<and> ci_title (competition rep) = ''Spring Open''"
proof -
  have 1: "\<exists>c\<in>set (competitions scenario_CDE). c_id c = 1"
    and 2: "\<not> (\<exists>d\<in>set (divisions scenario_CDE). d_competition_id d = 1 \<and> d_id d = 20)"
    by (simp_all add: scenario_CDE_def)
  have 3: "\<forall>r\<in>set (ranked scenario_CDE 1). pr_rank r \<le> 3 \<longrightarrow> fits_integer r"
    using scenario_CDE_fits by (simp only: final_select_fits)
  from unresolved_filter_gives_empty_divisions [OF 1 2 3] show ?thesis
    by (auto simp: scenario_CDE_def)
qed

text \<open>
  C6 as stated fails: in the scenario with the large attempts, division 20 is of
  competition 2, and with it as filter the handler answers for competition 1 with the
  error of the podium query, which it runs in full before the filter.
\<close>

theorem unresolved_filter_without_report_counterexample:
  "competition_summary scenario_overflow (Uuid_text 1) (Some (Uuid_text 20))
     = Inl (Thrown numeric_value_out_of_range)"
  by (simp add: scenario_overflow_def route_defs procedure_defs)


section \<open>The summary of a division\<close>

lemma combine_fields [simp]:
  "division_id (combine rows s) = division_id s"
  "division_name (combine rows s) = division_name s"
  "participant_count (combine rows s) = participant_count s"
  "problem_count (combine rows s) = problem_count s"
  "total_tops (combine rows s) = total_tops s"
  "total_zones (combine rows s) = total_zones s"
  "podium (combine rows s) = map standing_of (filter (\<lambda>p. pr_division_id p = division_id s) rows)"
  by (simp_all add: combine_def)

lemma summary_row_ids [simp]:
  "division_id (summary_row db cid d) = d_id d"
  "division_name (summary_row db cid d) = d_name d"
  by (simp_all add: summary_row_def)

lemma summarySql_set:
  "set (summarySql db cid f) =
     summary_row db cid ` {d \<in> set (divisions db). d_competition_id d = cid
                              \<and> (case f of None \<Rightarrow> True | Some x \<Rightarrow> d_id d = x)}"
  by (auto simp: summarySql_def)

text \<open>Every division of a report is the summary of a selected division with its podium.\<close>

lemma cr_divisions_elem:
  assumes "competition_summary db (Uuid_text cid) ft = Inr rep" and "dr \<in> set (cr_divisions rep)"
  obtains d f where "d \<in> set (divisions db)" "d_competition_id d = cid"
    "ft = map_option Uuid_text f"
    "case f of None \<Rightarrow> True | Some x \<Rightarrow> d_id d = x"
    "dr = combine (podiumSql (final_select db cid 3) f) (summary_row db cid d)"
proof -
  from assms(1) obtain f where f: "ft = map_option Uuid_text f"
    and d: "cr_divisions rep = map (combine (podiumSql (final_select db cid 3) f)) (summarySql db cid f)"
    by (rule competition_summary_Inr)
  from assms(2) have "dr \<in> combine (podiumSql (final_select db cid 3) f) ` set (summarySql db cid f)"
    by (simp add: d)
  then show ?thesis
    unfolding summarySql_set using that f by blast
qed

lemma cr_divisions_intro:
  assumes "competition_summary db (Uuid_text cid) (map_option Uuid_text f) = Inr rep"
    and "d \<in> set (divisions db)"
    and "d_competition_id d = cid" and "case f of None \<Rightarrow> True | Some x \<Rightarrow> d_id d = x"
  shows "combine (podiumSql (final_select db cid 3) f) (summary_row db cid d) \<in> set (cr_divisions rep)"
proof -
  from assms(1) obtain f' where f': "map_option Uuid_text f = map_option Uuid_text f'"
    and d: "cr_divisions rep = map (combine (podiumSql (final_select db cid 3) f')) (summarySql db cid f')"
    by (rule competition_summary_Inr)
  from f' have "f' = f" by (cases f; cases f') auto
  with d assms(2,3,4) show ?thesis by (simp add: summarySql_set)
qed

lemma du_iff:
  "x \<in> set (du db cid d) \<longleftrightarrow>
     (\<exists>cp\<in>set (competition_participants db). cp_competition_id cp = cid
         \<and> cp_division_id cp = Some (d_id d) \<and> x = cp_user_id cp)
     \<or> (\<exists>p\<in>set (problems db). \<exists>a\<in>set (ascents db). a_problem_id a = p_id p
         \<and> p_competition_id p = cid \<and> p_division_id p = Some (d_id d) \<and> x = a_user_id a)"
  unfolding du_def set_remdups set_append Un_iff
  apply (simp split: if_splits)
  apply blast
  done

lemma participant_count_card:
  "participant_count (summary_row db cid d) =
     int (card ({cp_user_id cp | cp. cp \<in> set (competition_participants db)
                   \<and> cp_competition_id cp = cid \<and> cp_division_id cp = Some (d_id d)}
                \<union> {a_user_id a | a p. a \<in> set (ascents db) \<and> p \<in> set (problems db)
                   \<and> a_problem_id a = p_id p \<and> p_competition_id p = cid
                   \<and> p_division_id p = Some (d_id d)}))"
proof -
  have "set (du db cid d) =
          {cp_user_id cp | cp. cp \<in> set (competition_participants db)
                   \<and> cp_competition_id cp = cid \<and> cp_division_id cp = Some (d_id d)}
          \<union> {a_user_id a | a p. a \<in> set (ascents db) \<and> p \<in> set (problems db)
                   \<and> a_problem_id a = p_id p \<and> p_competition_id p = cid
                   \<and> p_division_id p = Some (d_id d)}"
  proof (intro set_eqI)
    fix x
    show "x \<in> set (du db cid d) \<longleftrightarrow>
          x \<in> {cp_user_id cp | cp. cp \<in> set (competition_participants db)
                   \<and> cp_competition_id cp = cid \<and> cp_division_id cp = Some (d_id d)}
          \<union> {a_user_id a | a p. a \<in> set (ascents db) \<and> p \<in> set (problems db)
                   \<and> a_problem_id a = p_id p \<and> p_competition_id p = cid
                   \<and> p_division_id p = Some (d_id d)}"
      unfolding du_iff Un_iff mem_Collect_eq by blast
  qed
  moreover have "participant_count (summary_row db cid d) = int (card (set (du db cid d)))"
    by (simp add: summary_row_def count_distinct_def coalesce_def length_remdups_card_conv)
  ultimately show ?thesis by simp
qed

text \<open>
  C2. In every division of a report, \<open>participant_count\<close> is the number of elements of
  the union of the users registered in the competition with that division and the users
  with an ascent on a problem of the competition assigned to that division. A user in
  both sets is one element of the union, and a user who only logged an ascent is one too.
\<close>

theorem participant_count_is_union:
  assumes "competition_summary db (Uuid_text cid) f = Inr rep" and "dr \<in> set (cr_divisions rep)"
  shows "participant_count dr =
     int (card ({cp_user_id cp | cp. cp \<in> set (competition_participants db)
                   \<and> cp_competition_id cp = cid \<and> cp_division_id cp = Some (division_id dr)}
                \<union> {a_user_id a | a p. a \<in> set (ascents db) \<and> p \<in> set (problems db)
                   \<and> a_problem_id a = p_id p \<and> p_competition_id p = cid
                   \<and> p_division_id p = Some (division_id dr)}))"
proof -
  from assms obtain d g where "dr = combine (podiumSql (final_select db cid 3) g) (summary_row db cid d)"
    by (rule cr_divisions_elem)
  then show ?thesis by (simp add: participant_count_card)
qed

theorem participant_count_is_union_witness:
  "\<exists>rep dr. competition_summary scenario_CDE (Uuid_text 1) None = Inr rep
     \<and> dr \<in> set (cr_divisions rep)
     \<and> division_id dr = 10 \<and> participant_count dr = 2
     \<and> int (card ({cp_user_id cp | cp. cp \<in> set (competition_participants scenario_CDE)
                   \<and> cp_competition_id cp = 1 \<and> cp_division_id cp = Some 10}
                \<union> {a_user_id a | a p. a \<in> set (ascents scenario_CDE) \<and> p \<in> set (problems scenario_CDE)
                   \<and> a_problem_id a = p_id p \<and> p_competition_id p = 1
                   \<and> p_division_id p = Some 10})) = 2"
proof -
  let ?d = "\<lparr>d_id = 10, d_competition_id = 1, d_name = ''Open'', d_sort_order = Some 1\<rparr>"
  let ?dr = "combine (podiumSql (final_select scenario_CDE 1 3) None) (summary_row scenario_CDE 1 ?d)"
  obtain rep where rep0:
      "competition_summary scenario_CDE (Uuid_text 1) (map_option Uuid_text None) = Inr rep"
    using scenario_CDE_returns by blast
  then have rep: "competition_summary scenario_CDE (Uuid_text 1) None = Inr rep" by simp
  have mem: "?dr \<in> set (cr_divisions rep)"
    by (rule cr_divisions_intro [OF rep0]) (simp_all add: scenario_CDE_def)
  have pc: "participant_count ?dr = 2"
    by (simp add: summary_row_def du_def count_distinct_def coalesce_def scenario_CDE_def)
  show ?thesis
    using participant_count_is_union [OF rep mem] rep mem pc
    by (intro exI [of _ rep] exI [of _ ?dr]) simp
qed

lemma problem_count_zero:
  assumes "\<not> (\<exists>p\<in>set (problems db). p_competition_id p = cid \<and> p_division_id p = Some (d_id d))"
  shows "problem_count (summary_row db cid d) = 0"
proof -
  have "[p \<leftarrow> problems db. p_competition_id p = cid \<and> p_division_id p = Some (d_id d)] = []"
    using assms by (auto simp: filter_empty_conv)
  then show ?thesis by (simp add: summary_row_def count_star_def coalesce_def)
qed

lemma problems_left_join_ascents_elem:
  assumes "(p, Some a) \<in> set (problems_left_join_ascents db)"
  shows "p \<in> set (problems db) \<and> a \<in> set (ascents db) \<and> a_problem_id a = p_id p"
proof -
  from assms obtain q where q: "q \<in> set (problems db)"
    and m: "(p, Some a) \<in> set (case filter (\<lambda>a. a_problem_id a = p_id q) (ascents db) of
                         [] \<Rightarrow> [(q, None)] | as \<Rightarrow> map (\<lambda>a. (q, Some a)) as)"
    by (auto simp: problems_left_join_ascents_def)
  show ?thesis
  proof (cases "filter (\<lambda>a. a_problem_id a = p_id q) (ascents db)")
    case Nil
    with m show ?thesis by simp
  next
    case (Cons b bs)
    with m have "p = q" and "a \<in> set (filter (\<lambda>a. a_problem_id a = p_id q) (ascents db))"
      by auto
    with q show ?thesis by simp
  qed
qed

lemma counted_rows_empty:
  assumes "\<not> (\<exists>p\<in>set (problems db). \<exists>a\<in>set (ascents db). a_problem_id a = p_id p
               \<and> p_competition_id p = cid \<and> p_division_id p = Some (d_id d))"
  shows "[pa \<leftarrow> problems_left_join_ascents db.
            p_competition_id (fst pa) = cid \<and> p_division_id (fst pa) = Some (d_id d)
            \<and> is_true col (snd pa)] = []"
proof -
  have False if "pa \<in> set (problems_left_join_ascents db)" "p_competition_id (fst pa) = cid"
      "p_division_id (fst pa) = Some (d_id d)" "is_true col (snd pa)" for pa
  proof -
    from that(4) obtain a where "snd pa = Some a"
      by (auto simp: is_true_def split: option.splits)
    then have "(fst pa, Some a) \<in> set (problems_left_join_ascents db)"
      using that(1) by (metis prod.collapse)
    from problems_left_join_ascents_elem [OF this] that(2,3) assms show False by blast
  qed
  then show ?thesis by (auto simp: filter_empty_conv)
qed

lemma totals_zero:
  assumes "\<not> (\<exists>p\<in>set (problems db). \<exists>a\<in>set (ascents db). a_problem_id a = p_id p
               \<and> p_competition_id p = cid \<and> p_division_id p = Some (d_id d))"
  shows "total_tops (summary_row db cid d) = 0" and "total_zones (summary_row db cid d) = 0"
  by (simp_all add: summary_row_def count_star_def coalesce_def counted_rows_empty [OF assms])

lemma podium_empty:
  fixes db :: "('t::linorder) database"
  assumes "\<not> (\<exists>p\<in>set (problems db). \<exists>a\<in>set (ascents db). a_problem_id a = p_id p
               \<and> p_competition_id p = cid \<and> p_division_id p = Some x)"
  shows "filter (\<lambda>p. pr_division_id p = x) (podiumSql (final_select db cid 3) f) = []"
proof -
  have False if "r \<in> set (podiumSql (final_select db cid 3) f)" "pr_division_id r = x" for r
  proof -
    from that(1) have "r \<in> set (ranked db cid)" using podiumSql_subset by blast
    from ranked_has_ascent [OF this] that(2) assms show False by blast
  qed
  then show ?thesis by (auto simp: filter_empty_conv)
qed

text \<open>
  C7. Every division of the competition that the request selects is in the report. If it
  has no problem, its \<open>problem_count\<close>, \<open>total_tops\<close> and \<open>total_zones\<close> are 0; if no
  ascent is on one of its problems, its podium is empty and both totals are 0. The
  counts are integers, never null.
\<close>

theorem empty_division_reports_zero:
  fixes db :: "('t::linorder) database"
  assumes "competition_summary db (Uuid_text cid) f = Inr rep"
    and "d \<in> set (divisions db)" and "d_competition_id d = cid"
    and "f = None \<or> f = Some (Uuid_text (d_id d))"
  shows "(\<exists>dr\<in>set (cr_divisions rep). division_id dr = d_id d)
    \<and> (\<forall>dr\<in>set (cr_divisions rep). division_id dr = d_id d \<longrightarrow>
         ((\<not> (\<exists>p\<in>set (problems db). p_competition_id p = cid \<and> p_division_id p = Some (d_id d)))
            \<longrightarrow> problem_count dr = 0 \<and> total_tops dr = 0 \<and> total_zones dr = 0)
         \<and> ((\<not> (\<exists>p\<in>set (problems db). \<exists>a\<in>set (ascents db). a_problem_id a = p_id p
                  \<and> p_competition_id p = cid \<and> p_division_id p = Some (d_id d)))
            \<longrightarrow> podium dr = [] \<and> total_tops dr = 0 \<and> total_zones dr = 0))"
proof (intro conjI ballI impI)
  define g where "g = (if f = None then None else Some (d_id d))"
  have fg: "f = map_option Uuid_text g" using assms(4) by (auto simp: g_def)
  have "case g of None \<Rightarrow> True | Some x \<Rightarrow> d_id d = x" by (simp add: g_def)
  from cr_divisions_intro [OF assms(1) [unfolded fg] assms(2,3) this]
  show "\<exists>dr\<in>set (cr_divisions rep). division_id dr = d_id d"
    by (rule bexI [rotated]) simp
next
  fix dr
  assume dr: "dr \<in> set (cr_divisions rep)" and eq: "division_id dr = d_id d"
  from assms(1) dr obtain d' g where
    d': "dr = combine (podiumSql (final_select db cid 3) g) (summary_row db cid d')"
    by (rule cr_divisions_elem)
  with eq have id: "d_id d' = d_id d" by simp
  {
    assume np: "\<not> (\<exists>p\<in>set (problems db). p_competition_id p = cid \<and> p_division_id p = Some (d_id d))"
    then have na: "\<not> (\<exists>p\<in>set (problems db). \<exists>a\<in>set (ascents db). a_problem_id a = p_id p
               \<and> p_competition_id p = cid \<and> p_division_id p = Some (d_id d'))"
      using id by auto
    show "problem_count dr = 0" using np id by (simp add: d' problem_count_zero)
    show "total_tops dr = 0" using totals_zero(1) [OF na] by (simp add: d')
    show "total_zones dr = 0" using totals_zero(2) [OF na] by (simp add: d')
  }
  {
    assume na0: "\<not> (\<exists>p\<in>set (problems db). \<exists>a\<in>set (ascents db). a_problem_id a = p_id p
                  \<and> p_competition_id p = cid \<and> p_division_id p = Some (d_id d))"
    then have na: "\<not> (\<exists>p\<in>set (problems db). \<exists>a\<in>set (ascents db). a_problem_id a = p_id p
               \<and> p_competition_id p = cid \<and> p_division_id p = Some (d_id d'))"
      using id by auto
    show "podium dr = []" using podium_empty [OF na] by (simp add: d')
    show "total_tops dr = 0" using totals_zero(1) [OF na] by (simp add: d')
    show "total_zones dr = 0" using totals_zero(2) [OF na] by (simp add: d')
  }
qed

theorem empty_division_reports_zero_witness:
  "\<exists>rep dr1 dr2. competition_summary scenario_CDE (Uuid_text 1) None = Inr rep
     \<and> dr1 \<in> set (cr_divisions rep) \<and> division_name dr1 = ''Youth''
     \<and> problem_count dr1 = 0 \<and> total_tops dr1 = 0 \<and> total_zones dr1 = 0 \<and> podium dr1 = []
     \<and> dr2 \<in> set (cr_divisions rep) \<and> division_name dr2 = ''Masters''
     \<and> problem_count dr2 = 1 \<and> total_tops dr2 = 0 \<and> total_zones dr2 = 0 \<and> podium dr2 = []"
proof -
  let ?y = "\<lparr>d_id = 12, d_competition_id = 1, d_name = ''Youth'', d_sort_order = Some 1\<rparr>"
  let ?m = "\<lparr>d_id = 11, d_competition_id = 1, d_name = ''Masters'', d_sort_order = None\<rparr>"
  let ?dr1 = "combine (podiumSql (final_select scenario_CDE 1 3) None) (summary_row scenario_CDE 1 ?y)"
  let ?dr2 = "combine (podiumSql (final_select scenario_CDE 1 3) None) (summary_row scenario_CDE 1 ?m)"
  obtain rep where rep0:
      "competition_summary scenario_CDE (Uuid_text 1) (map_option Uuid_text None) = Inr rep"
    using scenario_CDE_returns by blast
  then have rep: "competition_summary scenario_CDE (Uuid_text 1) None = Inr rep" by simp
  have mem1: "?dr1 \<in> set (cr_divisions rep)"
    by (rule cr_divisions_intro [OF rep0]) (simp_all add: scenario_CDE_def)
  have mem2: "?dr2 \<in> set (cr_divisions rep)"
    by (rule cr_divisions_intro [OF rep0]) (simp_all add: scenario_CDE_def)
  have y: "?y \<in> set (divisions scenario_CDE)" and m: "?m \<in> set (divisions scenario_CDE)"
    by (simp_all add: scenario_CDE_def)
  have 1: "problem_count ?dr1 = 0 \<and> total_tops ?dr1 = 0 \<and> total_zones ?dr1 = 0 \<and> podium ?dr1 = []"
    using empty_division_reports_zero [OF rep y, THEN conjunct2, rule_format, OF _ _ mem1]
    by (simp add: scenario_CDE_def)
  have 2: "total_tops ?dr2 = 0 \<and> total_zones ?dr2 = 0 \<and> podium ?dr2 = []"
    using empty_division_reports_zero [OF rep m, THEN conjunct2, rule_format, OF _ _ mem2]
    by (simp add: scenario_CDE_def)
  have 3: "problem_count ?dr2 = 1"
    by (simp add: summary_row_def count_star_def coalesce_def scenario_CDE_def)
  show ?thesis
    using rep mem1 mem2 1 2 3
    by (intro exI [of _ rep] exI [of _ ?dr1] exI [of _ ?dr2]) simp
qed


section \<open>The order of the divisions\<close>

lemma division_order_le: "division_order d1 \<le> division_order d2 \<longleftrightarrow> division_le d1 d2"
  by (auto simp: division_order_def division_le_def less_eq_prod_def split: option.splits)

lemma sort_key_permutation:
  fixes f :: "'a \<Rightarrow> 'k::linorder"
  assumes "mset xs = mset ys" and "distinct (map f xs)"
  shows "sort_key f xs = sort_key f ys"
proof -
  have m: "mset (map f (sort_key f xs)) = mset (map f (sort_key f ys))"
    using assms(1) by simp
  have dx: "distinct (map f (sort_key f xs))"
    using assms(2) by (metis mset_eq_imp_distinct_iff mset_map mset_sort)
  then have dy: "distinct (map f (sort_key f ys))"
    using m by (metis mset_eq_imp_distinct_iff)
  have "set (map f (sort_key f xs)) = set (map f (sort_key f ys))"
    using m by (rule mset_eq_setD)
  then have e: "map f (sort_key f xs) = map f (sort_key f ys)"
    using dx dy by (intro sorted_distinct_set_unique) simp_all
  have "set xs = set ys" using assms(1) by (rule mset_eq_setD)
  moreover have "inj_on f (set xs)" using assms(2) by (simp add: distinct_map)
  ultimately have "inj_on f (set (sort_key f xs) \<union> set (sort_key f ys))" by simp
  with e show ?thesis by (simp add: inj_on_map_eq_map)
qed

lemma summarySql_ids:
  "map division_id (summarySql db cid f) =
     map d_id (sort_key division_order [d \<leftarrow> divisions db. d_competition_id d = cid
        \<and> (case f of None \<Rightarrow> True | Some x \<Rightarrow> d_id d = x)])"
  "map division_name (summarySql db cid f) =
     map d_name (sort_key division_order [d \<leftarrow> divisions db. d_competition_id d = cid
        \<and> (case f of None \<Rightarrow> True | Some x \<Rightarrow> d_id d = x)])"
  by (simp_all add: summarySql_def comp_def)

lemma cr_divisions_ids:
  assumes "competition_summary db (Uuid_text cid) ft = Inr rep" and "ft = map_option Uuid_text f"
  shows "map division_id (cr_divisions rep) = map division_id (summarySql db cid f)"
    and "map division_name (cr_divisions rep) = map division_name (summarySql db cid f)"
proof -
  from assms(1) obtain f' where f': "ft = map_option Uuid_text f'"
    and d: "cr_divisions rep = map (combine (podiumSql (final_select db cid 3) f')) (summarySql db cid f')"
    by (rule competition_summary_Inr)
  from f' assms(2) have "f' = f" by (cases f; cases f') auto
  with d show "map division_id (cr_divisions rep) = map division_id (summarySql db cid f)"
    and "map division_name (cr_divisions rep) = map division_name (summarySql db cid f)"
    by (simp_all add: comp_def)
qed

lemma division_order_distinct:
  assumes "distinct (map (\<lambda>d. (d_competition_id d, d_name d)) ds)"
  shows "distinct (map division_order [d \<leftarrow> ds. d_competition_id d = cid])"
proof -
  have "distinct (map (\<lambda>d. (d_competition_id d, d_name d)) [d \<leftarrow> ds. d_competition_id d = cid])"
    using assms by (rule distinct_map_filter)
  then have "distinct [d \<leftarrow> ds. d_competition_id d = cid]"
    and inj: "inj_on (\<lambda>d. (d_competition_id d, d_name d)) (set [d \<leftarrow> ds. d_competition_id d = cid])"
    by (simp_all add: distinct_map)
  moreover have "inj_on division_order (set [d \<leftarrow> ds. d_competition_id d = cid])"
  proof (rule inj_onI)
    fix x y
    assume x: "x \<in> set [d \<leftarrow> ds. d_competition_id d = cid]"
      and y: "y \<in> set [d \<leftarrow> ds. d_competition_id d = cid]"
      and "division_order x = division_order y"
    then have "d_name x = d_name y" by (simp add: division_order_def)
    moreover from x y have "d_competition_id x = d_competition_id y" by simp
    ultimately show "x = y" using inj x y by (auto dest: inj_onD)
  qed
  ultimately show ?thesis by (simp add: distinct_map)
qed

text \<open>
  C9. Without a division filter the report lists the divisions of the competition, each
  once, in the order of the sort key with nulls last and then of the name. When the names
  are unique within a competition, as the schema demands, the order does not depend on the
  order in which the table holds the rows.
\<close>

theorem divisions_in_sort_order:
  fixes db :: "('t::linorder) database"
  assumes "competition_summary db (Uuid_text cid) None = Inr rep"
  shows "(\<exists>ds. map division_id (cr_divisions rep) = map d_id ds
              \<and> map division_name (cr_divisions rep) = map d_name ds
              \<and> mset ds = mset [d \<leftarrow> divisions db. d_competition_id d = cid]
              \<and> sorted_wrt division_le ds)
    \<and> (distinct (map (\<lambda>d. (d_competition_id d, d_name d)) (divisions db)) \<longrightarrow>
         (\<forall>db' rep'. mset (divisions db') = mset (divisions db)
              \<and> competition_summary db' (Uuid_text cid) None = Inr rep'
            \<longrightarrow> map division_id (cr_divisions rep') = map division_id (cr_divisions rep)))"
proof (intro conjI impI allI)
  let ?ds = "sort_key division_order [d \<leftarrow> divisions db. d_competition_id d = cid]"
  have "sorted (map division_order ?ds)" by simp
  then have "sorted_wrt division_le ?ds"
    by (simp add: sorted_map division_order_le)
  moreover have "map division_id (cr_divisions rep) = map d_id ?ds"
    and "map division_name (cr_divisions rep) = map d_name ?ds"
    using cr_divisions_ids [OF assms, of None] by (simp_all add: summarySql_ids)
  ultimately show "\<exists>ds. map division_id (cr_divisions rep) = map d_id ds
              \<and> map division_name (cr_divisions rep) = map d_name ds
              \<and> mset ds = mset [d \<leftarrow> divisions db. d_competition_id d = cid]
              \<and> sorted_wrt division_le ds"
    by (intro exI [of _ ?ds]) simp
next
  fix db' :: "'t database" and rep'
  assume dist: "distinct (map (\<lambda>d. (d_competition_id d, d_name d)) (divisions db))"
    and h: "mset (divisions db') = mset (divisions db)
              \<and> competition_summary db' (Uuid_text cid) None = Inr rep'"
  from h have "mset [d \<leftarrow> divisions db. d_competition_id d = cid]
             = mset [d \<leftarrow> divisions db'. d_competition_id d = cid]"
    by simp
  from sort_key_permutation [OF this division_order_distinct [OF dist]]
  have "sort_key division_order [d \<leftarrow> divisions db. d_competition_id d = cid]
      = sort_key division_order [d \<leftarrow> divisions db'. d_competition_id d = cid]" .
  moreover have "map division_id (cr_divisions rep') = map division_id (summarySql db' cid None)"
    using h cr_divisions_ids(1) [of db' cid None rep' None] by simp
  moreover have "map division_id (cr_divisions rep) = map division_id (summarySql db cid None)"
    using assms cr_divisions_ids(1) [of db cid None rep None] by simp
  ultimately show "map division_id (cr_divisions rep') = map division_id (cr_divisions rep)"
    by (simp add: summarySql_ids)
qed

theorem divisions_in_sort_order_witness:
  "\<exists>rep rep'. competition_summary scenario_CDE (Uuid_text 1) None = Inr rep
     \<and> competition_summary (scenario_CDE\<lparr>divisions := rev (divisions scenario_CDE)\<rparr>)
           (Uuid_text 1) None = Inr rep'
     \<and> map division_name (cr_divisions rep) = [''Open'', ''Youth'', ''Masters'']
     \<and> map division_id (cr_divisions rep) = [10, 12, 11]
     \<and> map division_id (cr_divisions rep') = [10, 12, 11]"
proof -
  let ?db' = "scenario_CDE\<lparr>divisions := rev (divisions scenario_CDE)\<rparr>"
  obtain rep where rep0:
      "competition_summary scenario_CDE (Uuid_text 1) (map_option Uuid_text None) = Inr rep"
    using scenario_CDE_returns by blast
  then have rep: "competition_summary scenario_CDE (Uuid_text 1) None = Inr rep" by simp
  have "list_all fits_integer (final_select ?db' 1 3)"
    by (simp add: scenario_CDE_def procedure_defs)
  from competition_summary_returns [OF _ this, of None]
  obtain rep' where rep': "competition_summary ?db' (Uuid_text 1) None = Inr rep'"
    by (auto simp: scenario_CDE_def)
  have ids: "map division_id (cr_divisions rep) = [10, 12, 11]"
    and names: "map division_name (cr_divisions rep) = [''Open'', ''Youth'', ''Masters'']"
    by (simp_all add: cr_divisions_ids [OF rep, of None] summarySql_ids division_order_def
          scenario_CDE_def)
  have dist: "distinct (map (\<lambda>d. (d_competition_id d, d_name d)) (divisions scenario_CDE))"
    by (simp add: scenario_CDE_def)
  have "map division_id (cr_divisions rep') = map division_id (cr_divisions rep)"
    using divisions_in_sort_order [OF rep, THEN conjunct2, rule_format, OF dist, of ?db' rep'] rep'
    by simp
  with rep rep' ids names show ?thesis by auto
qed


section \<open>The dense rank\<close>

lemma assign_ranks_count:
  fixes key :: "'a \<Rightarrow> 'k::linorder"
  assumes "sorted (map key (x0 # xs))" and "(x, r') \<in> set (assign_ranks key (key x0) r xs)"
  shows "r' = r + int (card {k \<in> key ` set (x0 # xs). k < key x})"
  using assms
proof (induction xs arbitrary: x0 r)
  case Nil
  then show ?case by simp
next
  case (Cons y ys)
  define r1 where "r1 = (if key y = key x0 then r else r + 1)"
  from Cons.prems(1) have le: "key x0 \<le> key y" and s: "sorted (map key (y # ys))"
    and ge: "\<forall>z\<in>set ys. key y \<le> key z"
    by auto
  from Cons.prems(2) consider "x = y" "r' = r1"
    | "(x, r') \<in> set (assign_ranks key (key y) r1 ys)"
    by (auto simp: Let_def r1_def)
  then show ?case
  proof cases
    case 1
    have "{k \<in> key ` set (x0 # y # ys). k < key y} = (if key x0 < key y then {key x0} else {})"
      using ge le by auto
    then show ?thesis using 1 le by (auto simp: r1_def)
  next
    case 2
    from Cons.IH [OF s 2]
    have ih: "r' = r1 + int (card {k \<in> key ` set (y # ys). k < key x})" .
    have "x \<in> set (map fst (assign_ranks key (key y) r1 ys))"
      using 2 by force
    then have "x \<in> set ys" by (simp add: map_fst_assign_ranks)
    with ge have yx: "key y \<le> key x" by simp
    show ?thesis
    proof (cases "key y = key x0")
      case True
      then have "{k \<in> key ` set (x0 # y # ys). k < key x} = {k \<in> key ` set (y # ys). k < key x}"
        by auto
      with ih True show ?thesis by (simp add: r1_def)
    next
      case False
      with le have lt: "key x0 < key y" by simp
      have "{k \<in> key ` set (x0 # y # ys). k < key x}
              = insert (key x0) {k \<in> key ` set (y # ys). k < key x}"
        using lt yx by auto
      moreover have "key x0 \<notin> {k \<in> key ` set (y # ys). k < key x}"
        using lt ge by auto
      ultimately have "card {k \<in> key ` set (x0 # y # ys). k < key x}
              = Suc (card {k \<in> key ` set (y # ys). k < key x})"
        by simp
      with ih False show ?thesis by (simp add: r1_def)
    qed
  qed
qed

text \<open>The rank of a row is one more than the number of distinct keys before its own.\<close>

lemma dense_rank_count:
  fixes key :: "'a \<Rightarrow> 'k::linorder"
  assumes "(x, r) \<in> set (dense_rank key rows)"
  shows "r = 1 + int (card {k \<in> key ` set rows. k < key x})"
proof (cases "sort_key key rows")
  case Nil
  with assms show ?thesis by (simp add: dense_rank_def)
next
  case (Cons x0 xs)
  have s: "sorted (map key (x0 # xs))" using Cons by (metis sorted_sort_key)
  have set: "set (x0 # xs) = set rows" using Cons by (metis set_sort)
  from assms Cons consider "x = x0" "r = 1" | "(x, r) \<in> set (assign_ranks key (key x0) 1 xs)"
    by (auto simp: dense_rank_def)
  then show ?thesis
  proof cases
    case 1
    have "\<forall>z\<in>set rows. key x0 \<le> key z" using s set by auto
    then have "{k \<in> key ` set rows. k < key x0} = {}" by auto
    with 1 show ?thesis by simp
  next
    case 2
    from assign_ranks_count [OF s 2] show ?thesis by (simp only: set)
  qed
qed

lemma dense_rank_total:
  fixes key :: "'a \<Rightarrow> 'k::linorder"
  assumes "x \<in> set rows"
  shows "\<exists>r. (x, r) \<in> set (dense_rank key rows)"
proof -
  have "x \<in> set (map fst (dense_rank key rows))"
    using assms by (simp add: map_fst_dense_rank)
  then show ?thesis by force
qed

lemma card_below_less:
  fixes K :: "'k::linorder set"
  assumes "finite K" and "k1 \<in> K" and "k1 < k2"
  shows "card {k \<in> K. k < k1} < card {k \<in> K. k < k2}"
proof (rule psubset_card_mono)
  show "finite {k \<in> K. k < k2}" using assms(1) by simp
  show "{k \<in> K. k < k1} \<subset> {k \<in> K. k < k2}" using assms(2,3) by auto
qed

lemma card_below_next:
  fixes K :: "'k::linorder set"
  assumes "finite K" and "k1 \<in> K" and "k1 < k2" and "\<forall>k\<in>K. \<not> (k1 < k \<and> k < k2)"
  shows "card {k \<in> K. k < k2} = Suc (card {k \<in> K. k < k1})"
proof -
  have "{k \<in> K. k < k2} = insert k1 {k \<in> K. k < k1}"
    using assms(2,3,4) by (auto simp: not_less)
  moreover have "k1 \<notin> {k \<in> K. k < k1}" by simp
  moreover have "finite {k \<in> K. k < k1}" using assms(1) by simp
  ultimately show ?thesis by simp
qed

lemma window_key_ranked_row [simp]:
  "window_key (ranked_row cid (x, rnk)) = rank_key x"
  by (cases x) (simp add: window_key_def ranked_row_def rank_key_def)

lemma less_pair:
  fixes a1 :: "'a::linorder" and b1 :: "'b::linorder"
  shows "(a1, b1) < (a2, b2) \<longleftrightarrow> a1 < a2 \<or> (a1 = a2 \<and> b1 < b2)"
  unfolding less_prod_def fst_conv snd_conv by auto

lemma ranks_before_iff: "ranks_before r1 r2 \<longleftrightarrow> window_key r1 < window_key r2"
  unfolding ranks_before_def window_key_def less_pair by simp

lemma five_tuple_iff: "five_tuple r1 = five_tuple r2 \<longleftrightarrow> window_key r1 = window_key r2"
  by (auto simp: five_tuple_def window_key_def)

lemma five_tuple_window_key:
  "five_tuple r = (\<lambda>(a, b, c, d, n). (- a, - b, c, d, n)) (window_key r)"
  by (simp add: five_tuple_def window_key_def)

text \<open>The keys of the window's partition of a division, read off the ranked rows.\<close>

lemma in_concat_map: "y \<in> set ys \<Longrightarrow> z \<in> set (f y) \<Longrightarrow> z \<in> set (concat (map f ys))"
  by auto

lemma ranked_intro:
  fixes db :: "('t::linorder) database"
  assumes "x \<in> set (ranked_join db cid)"
  shows "\<exists>rnk. ranked_row cid (x, rnk) \<in> set (ranked db cid)"
proof -
  let ?P = "filter (\<lambda>y. pu_division_id (fst y) = pu_division_id (fst x)) (ranked_join db cid)"
  have "x \<in> set ?P" using assms by simp
  from dense_rank_total [OF this, of rank_key]
  obtain rnk where "(x, rnk) \<in> set (dense_rank rank_key ?P)" ..
  moreover have "pu_division_id (fst x) \<in> set (remdups (map (\<lambda>r. pu_division_id (fst r)) (ranked_join db cid)))"
    using assms by simp
  ultimately have "ranked_row cid (x, rnk) \<in> set (ranked db cid)"
    unfolding ranked_def Let_def
    by (intro in_concat_map [where y = "pu_division_id (fst x)"]) simp_all
  then show ?thesis ..
qed

lemma partition_keys:
  fixes db :: "('t::linorder) database"
  shows "rank_key ` {x \<in> set (ranked_join db cid). pu_division_id (fst x) = D}
       = window_key ` {r \<in> set (ranked db cid). pr_division_id r = D}"
proof (intro set_eqI iffI)
  fix k
  assume "k \<in> rank_key ` {x \<in> set (ranked_join db cid). pu_division_id (fst x) = D}"
  then obtain x where x: "x \<in> set (ranked_join db cid)" "pu_division_id (fst x) = D" "k = rank_key x"
    by auto
  from ranked_intro [OF x(1)] obtain rnk where r: "ranked_row cid (x, rnk) \<in> set (ranked db cid)" ..
  have "pr_division_id (ranked_row cid (x, rnk)) = D"
    using x(2) by (cases x) simp
  with r x(3) show "k \<in> window_key ` {r \<in> set (ranked db cid). pr_division_id r = D}"
    by (intro image_eqI [of _ _ "ranked_row cid (x, rnk)"]) simp_all
next
  fix k
  assume "k \<in> window_key ` {r \<in> set (ranked db cid). pr_division_id r = D}"
  then obtain r where r: "r \<in> set (ranked db cid)" "pr_division_id r = D" "k = window_key r"
    by auto
  from r(1) obtain p u rnk where pu: "(p, u) \<in> set (ranked_join db cid)"
    and re: "r = ranked_row cid ((p, u), rnk)"
    by (rule ranked_elem)
  show "k \<in> rank_key ` {x \<in> set (ranked_join db cid). pu_division_id (fst x) = D}"
    using pu r(2,3) by (intro image_eqI [of _ _ "(p, u)"]) (simp_all add: re)
qed

lemma ranked_rank_count:
  fixes db :: "('t::linorder) database"
  assumes "r \<in> set (ranked db cid)"
  shows "pr_rank r = 1 + int (card {k \<in> window_key ` {r' \<in> set (ranked db cid).
                                      pr_division_id r' = pr_division_id r}. k < window_key r})"
proof -
  from assms obtain p u rnk where pu: "(p, u) \<in> set (ranked_join db cid)"
    and dr: "((p, u), rnk) \<in> set (dense_rank rank_key
        (filter (\<lambda>x. pu_division_id (fst x) = pu_division_id p) (ranked_join db cid)))"
    and re: "r = ranked_row cid ((p, u), rnk)"
    by (rule ranked_elem)
  have "rnk = 1 + int (card {k \<in> rank_key ` set (filter (\<lambda>x. pu_division_id (fst x) = pu_division_id p)
                                (ranked_join db cid)). k < rank_key (p, u)})"
    using dr by (rule dense_rank_count)
  moreover have "set (filter (\<lambda>x. pu_division_id (fst x) = pu_division_id p) (ranked_join db cid))
      = {x \<in> set (ranked_join db cid). pu_division_id (fst x) = pu_division_id p}"
    by simp
  ultimately show ?thesis
    by (simp add: re partition_keys)
qed

lemma card_five_tuples:
  fixes db :: "('t::linorder) database"
  shows "card {five_tuple r | r. r \<in> set (ranked db cid) \<and> pr_division_id r = D \<and> ranks_before r r1}
       = card {k \<in> window_key ` {r \<in> set (ranked db cid). pr_division_id r = D}. k < window_key r1}"
proof -
  let ?g = "\<lambda>(a::int, b::int, c::int, d::int, n::'t). (- a, - b, c, d, n)"
  let ?A = "{r \<in> set (ranked db cid). pr_division_id r = D \<and> ranks_before r r1}"
  have 1: "{five_tuple r | r. r \<in> set (ranked db cid) \<and> pr_division_id r = D \<and> ranks_before r r1}
      = ?g ` (window_key ` ?A)"
    unfolding image_image five_tuple_window_key [symmetric] by blast
  have 2: "{k \<in> window_key ` {r \<in> set (ranked db cid). pr_division_id r = D}. k < window_key r1}
      = window_key ` ?A"
    unfolding ranks_before_iff by blast
  have "inj ?g" by (auto simp: inj_on_def)
  then have "inj_on ?g (window_key ` ?A)" by (rule inj_on_subset) simp
  then have "card (?g ` (window_key ` ?A)) = card (window_key ` ?A)" by (rule card_image)
  then show ?thesis by (simp only: 1 2)
qed

text \<open>
  What the window of \<^verbatim>\<open>ranked\<close> computes, on every database. The display name is a
  stage of its order, so the rank of a row is one more than the number of distinct
  5-tuples (tops, zones, attempts to top, attempts to zone, display name) of the division
  that rank before its own. Rows of a division with the same four numbers have the same
  rank only when they also show the same display name.
\<close>

lemma ranked_rank_of_five_stage_key:
  fixes db :: "('t::linorder) database"
  assumes "r1 \<in> set (ranked db cid)" and "r2 \<in> set (ranked db cid)"
    and "pr_division_id r1 = pr_division_id r2"
  shows "pr_rank r1 = 1 + int (card {five_tuple r | r. r \<in> set (ranked db cid)
                                      \<and> pr_division_id r = pr_division_id r1 \<and> ranks_before r r1})
    \<and> (five_tuple r1 = five_tuple r2 \<longrightarrow> pr_rank r1 = pr_rank r2)
    \<and> (ranks_before r1 r2 \<longrightarrow> pr_rank r1 < pr_rank r2)
    \<and> (ranks_before r1 r2
         \<and> (\<forall>r3\<in>set (ranked db cid). pr_division_id r3 = pr_division_id r1
               \<longrightarrow> \<not> (ranks_before r1 r3 \<and> ranks_before r3 r2))
        \<longrightarrow> pr_rank r2 = pr_rank r1 + 1)
    \<and> (four_tuple r1 = four_tuple r2
        \<longrightarrow> (pr_rank r1 = pr_rank r2 \<longleftrightarrow> pr_user_display_name r1 = pr_user_display_name r2))"
proof -
  define K where "K = window_key ` {r \<in> set (ranked db cid). pr_division_id r = pr_division_id r1}"
  have fin: "finite K" by (simp add: K_def)
  have k1: "window_key r1 \<in> K" and k2: "window_key r2 \<in> K"
    using assms by (auto simp: K_def)
  have rk1: "pr_rank r1 = 1 + int (card {k \<in> K. k < window_key r1})"
    using ranked_rank_count [OF assms(1)] by (simp add: K_def)
  have rk2: "pr_rank r2 = 1 + int (card {k \<in> K. k < window_key r2})"
    using ranked_rank_count [OF assms(2)] assms(3) by (simp add: K_def)
  have a: "pr_rank r1 = 1 + int (card {five_tuple r | r. r \<in> set (ranked db cid)
                                      \<and> pr_division_id r = pr_division_id r1 \<and> ranks_before r r1})"
    using rk1 by (simp add: card_five_tuples K_def)
  have b: "pr_rank r1 = pr_rank r2" if "five_tuple r1 = five_tuple r2"
    using that rk1 rk2 by (simp add: five_tuple_iff)
  have c: "pr_rank r1 < pr_rank r2" if "ranks_before r1 r2"
    using card_below_less [OF fin k1] that rk1 rk2 by (simp add: ranks_before_iff)
  have d: "pr_rank r2 = pr_rank r1 + 1"
    if "ranks_before r1 r2" and "\<forall>r3\<in>set (ranked db cid). pr_division_id r3 = pr_division_id r1
               \<longrightarrow> \<not> (ranks_before r1 r3 \<and> ranks_before r3 r2)"
  proof -
    have "\<forall>k\<in>K. \<not> (window_key r1 < k \<and> k < window_key r2)"
      using that(2) by (auto simp: K_def ranks_before_iff)
    from card_below_next [OF fin k1 _ this] that(1) rk1 rk2 show ?thesis
      by (simp add: ranks_before_iff)
  qed
  have e: "pr_rank r1 = pr_rank r2 \<longleftrightarrow> pr_user_display_name r1 = pr_user_display_name r2"
    if "four_tuple r1 = four_tuple r2"
  proof
    assume "pr_user_display_name r1 = pr_user_display_name r2"
    with that have "five_tuple r1 = five_tuple r2"
      by (simp add: five_tuple_def four_tuple_def)
    then show "pr_rank r1 = pr_rank r2" by (rule b)
  next
    assume eq: "pr_rank r1 = pr_rank r2"
    show "pr_user_display_name r1 = pr_user_display_name r2"
    proof (rule ccontr)
      assume "pr_user_display_name r1 \<noteq> pr_user_display_name r2"
      then have "pr_user_display_name r1 < pr_user_display_name r2
          \<or> pr_user_display_name r2 < pr_user_display_name r1"
        by auto
      then have "window_key r1 < window_key r2 \<or> window_key r2 < window_key r1"
        using that unfolding window_key_def less_pair four_tuple_def by simp
      then have "pr_rank r1 < pr_rank r2 \<or> pr_rank r2 < pr_rank r1"
        using card_below_less [OF fin k1, of "window_key r2"]
          card_below_less [OF fin k2, of "window_key r1"] rk1 rk2
        by auto
      with eq show False by simp
    qed
  qed
  show ?thesis
  proof (intro conjI impI)
    assume "ranks_before r1 r2
         \<and> (\<forall>r3\<in>set (ranked db cid). pr_division_id r3 = pr_division_id r1
               \<longrightarrow> \<not> (ranks_before r1 r3 \<and> ranks_before r3 r2))"
    then show "pr_rank r2 = pr_rank r1 + 1" using d by blast
  qed (fact a, erule b, erule c, erule e)
qed

text \<open>
  C1. The specification asks for the dense rank with ties: users of a division with the
  same 4-tuple share a rank and the next distinct 4-tuple has one more. The procedure
  calls \<^verbatim>\<open>dense_rank()\<close> and orders its result by rank and then display name, but its
  window orders by the display name too, so that rows with the same 4-tuple are not
  peers. In scenario B Alice and Bob, both with (2, 1, 3, 1), have the ranks 1 and 2
  where the dense rank with ties is 1 for both, and Carol has rank 3 where it is 2; the
  report shows the ranks 1, 2, 3.
\<close>

theorem scenario_B_ranks_split_equal_tuples:
  "map (\<lambda>r. (pr_user_display_name r, four_tuple r, pr_rank r,
              spec_dense_rank (ranked scenario_B 1) r)) (ranked scenario_B 1)
     = [(''Alice'', (2, 1, 3, 1), 1, 1), (''Bob'', (2, 1, 3, 1), 2, 1),
        (''Carol'', (1, 1, 2, 1), 3, 2)]
   \<and> competition_summary scenario_B (Uuid_text 1) None =
     Inr \<lparr>competition = \<lparr>ci_id = 1, ci_title = ''Spring Open''\<rparr>,
          cr_divisions =
            [\<lparr>division_id = 1, division_name = ''Open'', participant_count = 3,
              problem_count = 2, total_tops = 5, total_zones = 3,
              podium =
                [\<lparr>st_user_id = 1, st_user_display_name = ''Alice'', st_rank = 1,
                   st_total_tops = 2, st_total_zones = 1,
                   st_total_top_attempts = 3, st_total_zone_attempts = 1\<rparr>,
                 \<lparr>st_user_id = 2, st_user_display_name = ''Bob'', st_rank = 2,
                   st_total_tops = 2, st_total_zones = 1,
                   st_total_top_attempts = 3, st_total_zone_attempts = 1\<rparr>,
                 \<lparr>st_user_id = 3, st_user_display_name = ''Carol'', st_rank = 3,
                   st_total_tops = 1, st_total_zones = 1,
                   st_total_top_attempts = 2, st_total_zone_attempts = 1\<rparr>]\<rparr>]\<rparr>"
proof
  have r: "ranked scenario_B 1 =
    [\<lparr>pr_competition_id = 1, pr_division_id = 1, pr_division_name = ''Open'',
       pr_user_id = 1, pr_user_display_name = ''Alice'', pr_rank = 1,
       pr_total_tops = 2, pr_total_zones = 1, pr_total_top_attempts = 3,
       pr_total_zone_attempts = 1\<rparr>,
     \<lparr>pr_competition_id = 1, pr_division_id = 1, pr_division_name = ''Open'',
       pr_user_id = 2, pr_user_display_name = ''Bob'', pr_rank = 2,
       pr_total_tops = 2, pr_total_zones = 1, pr_total_top_attempts = 3,
       pr_total_zone_attempts = 1\<rparr>,
     \<lparr>pr_competition_id = 1, pr_division_id = 1, pr_division_name = ''Open'',
       pr_user_id = 3, pr_user_display_name = ''Carol'', pr_rank = 3,
       pr_total_tops = 1, pr_total_zones = 1, pr_total_top_attempts = 2,
       pr_total_zone_attempts = 1\<rparr>]"
    by (simp add: scenario_B_def procedure_defs)
  show "map (\<lambda>r. (pr_user_display_name r, four_tuple r, pr_rank r,
              spec_dense_rank (ranked scenario_B 1) r)) (ranked scenario_B 1)
     = [(''Alice'', (2, 1, 3, 1), 1, 1), (''Bob'', (2, 1, 3, 1), 2, 1),
        (''Carol'', (1, 1, 2, 1), 3, 2)]"
    unfolding r by (simp add: spec_dense_rank_def four_tuple_def ranks_before4_def)
  show "competition_summary scenario_B (Uuid_text 1) None =
     Inr \<lparr>competition = \<lparr>ci_id = 1, ci_title = ''Spring Open''\<rparr>,
          cr_divisions =
            [\<lparr>division_id = 1, division_name = ''Open'', participant_count = 3,
              problem_count = 2, total_tops = 5, total_zones = 3,
              podium =
                [\<lparr>st_user_id = 1, st_user_display_name = ''Alice'', st_rank = 1,
                   st_total_tops = 2, st_total_zones = 1,
                   st_total_top_attempts = 3, st_total_zone_attempts = 1\<rparr>,
                 \<lparr>st_user_id = 2, st_user_display_name = ''Bob'', st_rank = 2,
                   st_total_tops = 2, st_total_zones = 1,
                   st_total_top_attempts = 3, st_total_zone_attempts = 1\<rparr>,
                 \<lparr>st_user_id = 3, st_user_display_name = ''Carol'', st_rank = 3,
                   st_total_tops = 1, st_total_zones = 1,
                   st_total_top_attempts = 2, st_total_zone_attempts = 1\<rparr>]\<rparr>]\<rparr>"
    by (simp add: scenario_B_def route_defs procedure_defs)
qed


section \<open>The podium of a division\<close>

lemma ranked_division:
  fixes db :: "('t::linorder) database"
  assumes "r \<in> set (ranked db cid)"
  shows "\<exists>d\<in>set (divisions db). d_id d = pr_division_id r \<and> d_name d = pr_division_name r"
proof -
  from assms obtain p u rnk where pu: "(p, u) \<in> set (ranked_join db cid)"
    and r: "r = ranked_row cid ((p, u), rnk)"
    by (rule ranked_elem)
  from pu have p: "p \<in> set (per_user db cid)"
    by (auto simp: ranked_join_set)
  from p obtain dp a where da: "(dp, a) \<in> set (per_user_join db cid)"
    and f: "pu_division_id p = dp_division_id dp" "pu_division_name p = dp_division_name dp"
    by (rule per_user_elem)
  from da have dp: "dp \<in> set (division_problems db cid)"
    by (auto simp: per_user_join_set)
  from dp obtain q and d :: "'t divisions_row" where "q \<in> set (problems db)"
    and d: "d \<in> set (divisions db)"
    and dpe: "dp = \<lparr>dp_problem_id = p_id q, dp_division_id = d_id d, dp_division_name = d_name d\<rparr>"
    unfolding division_problems_iff by blast
  show ?thesis
    using d f by (intro bexI [of _ d]) (simp_all add: r dpe)
qed

lemma podiumSql_division:
  fixes db :: "('t::linorder) database"
  assumes "case f of None \<Rightarrow> True | Some x \<Rightarrow> D = x"
  shows "filter (\<lambda>p. pr_division_id p = D) (podiumSql (final_select db cid 3) f)
       = filter (\<lambda>p. pr_division_id p = D) (final_select db cid 3)"
proof (cases f)
  case None
  then show ?thesis by (simp add: podiumSql_def)
next
  case (Some x)
  with assms have "D = x" by simp
  then show ?thesis using Some by (simp add: podiumSql_def)
qed

lemma podium_mset:
  fixes db :: "('t::linorder) database"
  shows "mset (filter (\<lambda>p. pr_division_id p = D) (final_select db cid n))
       = mset [r \<leftarrow> ranked db cid. pr_division_id r = D \<and> pr_rank r \<le> n]"
  by (simp add: final_select_def filter_filter_mset conj_commute)

lemma standing_of_rank [simp]: "st_rank (standing_of r) = pr_rank r"
  by (simp add: standing_of_def)

lemma standing_of_name [simp]: "st_user_display_name (standing_of r) = pr_user_display_name r"
  by (simp add: standing_of_def)

lemma podium_of_division:
  fixes db :: "('t::linorder) database"
  assumes "competition_summary db (Uuid_text cid) f = Inr rep" and "dr \<in> set (cr_divisions rep)"
  shows "podium dr = map standing_of
           (filter (\<lambda>p. pr_division_id p = division_id dr) (final_select db cid 3))"
proof -
  from assms obtain d g where d: "case g of None \<Rightarrow> True | Some x \<Rightarrow> d_id d = x"
    and dr: "dr = combine (podiumSql (final_select db cid 3) g) (summary_row db cid d)"
    by (rule cr_divisions_elem)
  show ?thesis
    using podiumSql_division [where f = g and D = "d_id d" and db = db and cid = cid] d
    by (simp add: dr)
qed

lemma summary_scenario_tie:
  "competition_summary scenario_tie (Uuid_text 1) None =
     Inr \<lparr>competition = \<lparr>ci_id = 1, ci_title = ''Spring Open''\<rparr>,
          cr_divisions =
            [\<lparr>division_id = 1, division_name = ''Open'',
              participant_count = 6, problem_count = 1, total_tops = 5, total_zones = 5,
              podium =
                [\<lparr>st_user_id = 1, st_user_display_name = ''Ann'',
                    st_rank = 1, st_total_tops = 1, st_total_zones = 1,
                    st_total_top_attempts = 1, st_total_zone_attempts = 1\<rparr>,
                 \<lparr>st_user_id = 2, st_user_display_name = ''Ben'',
                    st_rank = 2, st_total_tops = 1, st_total_zones = 1,
                    st_total_top_attempts = 1, st_total_zone_attempts = 2\<rparr>,
                 \<lparr>st_user_id = 5, st_user_display_name = ''Sam'',
                    st_rank = 3, st_total_tops = 1, st_total_zones = 1,
                    st_total_top_attempts = 2, st_total_zone_attempts = 1\<rparr>,
                 \<lparr>st_user_id = 4, st_user_display_name = ''Sam'',
                    st_rank = 3, st_total_tops = 1, st_total_zones = 1,
                    st_total_top_attempts = 2, st_total_zone_attempts = 1\<rparr>,
                 \<lparr>st_user_id = 3, st_user_display_name = ''Sam'',
                    st_rank = 3, st_total_tops = 1, st_total_zones = 1,
                    st_total_top_attempts = 2, st_total_zone_attempts = 1\<rparr>]\<rparr>]\<rparr>"
  by (simp add: scenario_tie_def route_defs procedure_defs)

text \<open>
  The cut of the podium, on every database: the podium of a division of a report holds
  the ranked rows of the division whose rank, as the procedure assigns it, is at most 3,
  each once.
\<close>

lemma podium_is_procedure_rank_at_most_three:
  fixes db :: "('t::linorder) database"
  assumes "competition_summary db (Uuid_text cid) f = Inr rep" and "dr \<in> set (cr_divisions rep)"
  shows "mset (podium dr) =
           mset (map standing_of [r \<leftarrow> ranked db cid. pr_division_id r = division_id dr \<and> pr_rank r \<le> 3])"
proof -
  have "mset (podium dr) = image_mset standing_of
          (mset (filter (\<lambda>p. pr_division_id p = division_id dr) (final_select db cid 3)))"
    by (simp add: podium_of_division [OF assms])
  also have "\<dots> = image_mset standing_of
          (mset [r \<leftarrow> ranked db cid. pr_division_id r = division_id dr \<and> pr_rank r \<le> 3])"
    by (simp only: podium_mset)
  finally show ?thesis by simp
qed

text \<open>
  C3. The specification puts on the podium every user whose dense rank with ties is at
  most 3, so that a tie across the cut gives more than three standings. The procedure
  cuts by its own rank, which the display name splits (the defect of C1): with four
  users of the same 4-tuple and different names, all of dense rank 1, it ranks them 1
  to 4 and the report's podium holds Ann, Ben and Cy and leaves Di out.
\<close>

theorem four_tied_podium_is_cut_mid_tie:
  "map (\<lambda>r. (pr_user_display_name r, four_tuple r, pr_rank r,
              spec_dense_rank (ranked scenario_four_tied 1) r)) (ranked scenario_four_tied 1)
     = [(''Ann'', (1, 1, 2, 1), 1, 1), (''Ben'', (1, 1, 2, 1), 2, 1),
        (''Cy'', (1, 1, 2, 1), 3, 1), (''Di'', (1, 1, 2, 1), 4, 1)]
   \<and> competition_summary scenario_four_tied (Uuid_text 1) None =
     Inr \<lparr>competition = \<lparr>ci_id = 1, ci_title = ''Spring Open''\<rparr>,
          cr_divisions =
            [\<lparr>division_id = 1, division_name = ''Open'', participant_count = 4,
              problem_count = 1, total_tops = 4, total_zones = 4,
              podium =
                [\<lparr>st_user_id = 1, st_user_display_name = ''Ann'', st_rank = 1,
                   st_total_tops = 1, st_total_zones = 1,
                   st_total_top_attempts = 2, st_total_zone_attempts = 1\<rparr>,
                 \<lparr>st_user_id = 2, st_user_display_name = ''Ben'', st_rank = 2,
                   st_total_tops = 1, st_total_zones = 1,
                   st_total_top_attempts = 2, st_total_zone_attempts = 1\<rparr>,
                 \<lparr>st_user_id = 3, st_user_display_name = ''Cy'', st_rank = 3,
                   st_total_tops = 1, st_total_zones = 1,
                   st_total_top_attempts = 2, st_total_zone_attempts = 1\<rparr>]\<rparr>]\<rparr>"
proof
  let ?row = "\<lambda>(u::nat) n k. \<lparr>pr_competition_id = 1::nat, pr_division_id = 1::nat,
       pr_division_name = ''Open'', pr_user_id = u, pr_user_display_name = n, pr_rank = k,
       pr_total_tops = 1, pr_total_zones = 1, pr_total_top_attempts = 2,
       pr_total_zone_attempts = 1\<rparr>"
  have r: "ranked scenario_four_tied 1 =
    [?row 1 ''Ann'' 1, ?row 2 ''Ben'' 2, ?row 3 ''Cy'' 3, ?row 4 ''Di'' 4]"
    by (simp add: scenario_four_tied_def procedure_defs)
  show "map (\<lambda>r. (pr_user_display_name r, four_tuple r, pr_rank r,
              spec_dense_rank (ranked scenario_four_tied 1) r)) (ranked scenario_four_tied 1)
     = [(''Ann'', (1, 1, 2, 1), 1, 1), (''Ben'', (1, 1, 2, 1), 2, 1),
        (''Cy'', (1, 1, 2, 1), 3, 1), (''Di'', (1, 1, 2, 1), 4, 1)]"
    unfolding r by (simp add: spec_dense_rank_def four_tuple_def ranks_before4_def)
  show "competition_summary scenario_four_tied (Uuid_text 1) None =
     Inr \<lparr>competition = \<lparr>ci_id = 1, ci_title = ''Spring Open''\<rparr>,
          cr_divisions =
            [\<lparr>division_id = 1, division_name = ''Open'', participant_count = 4,
              problem_count = 1, total_tops = 4, total_zones = 4,
              podium =
                [\<lparr>st_user_id = 1, st_user_display_name = ''Ann'', st_rank = 1,
                   st_total_tops = 1, st_total_zones = 1,
                   st_total_top_attempts = 2, st_total_zone_attempts = 1\<rparr>,
                 \<lparr>st_user_id = 2, st_user_display_name = ''Ben'', st_rank = 2,
                   st_total_tops = 1, st_total_zones = 1,
                   st_total_top_attempts = 2, st_total_zone_attempts = 1\<rparr>,
                 \<lparr>st_user_id = 3, st_user_display_name = ''Cy'', st_rank = 3,
                   st_total_tops = 1, st_total_zones = 1,
                   st_total_top_attempts = 2, st_total_zone_attempts = 1\<rparr>]\<rparr>]\<rparr>"
    by (simp add: scenario_four_tied_def route_defs procedure_defs)
qed

lemma less_eq_pair:
  fixes a1 :: "'a::linorder" and b1 :: "'b::linorder"
  shows "(a1, b1) \<le> (a2, b2) \<longleftrightarrow> a1 < a2 \<or> (a1 = a2 \<and> b1 \<le> b2)"
  unfolding less_eq_prod_def fst_conv snd_conv by auto

lemma division_name_of_id:
  fixes db :: "('t::linorder) database"
  assumes "distinct (map d_id (divisions db))"
    and "r1 \<in> set (ranked db cid)" and "r2 \<in> set (ranked db cid)"
    and "pr_division_id r1 = pr_division_id r2"
  shows "pr_division_name r1 = pr_division_name r2"
proof -
  from ranked_division [OF assms(2)] obtain d1 where d1: "d1 \<in> set (divisions db)"
    "d_id d1 = pr_division_id r1" "d_name d1 = pr_division_name r1" by blast
  from ranked_division [OF assms(3)] obtain d2 where d2: "d2 \<in> set (divisions db)"
    "d_id d2 = pr_division_id r2" "d_name d2 = pr_division_name r2" by blast
  have inj: "inj_on d_id (set (divisions db))" using assms(1) by (simp add: distinct_map)
  have "d1 = d2" by (rule inj_onD [OF inj]) (use d1 d2 assms(4) in simp_all)
  with d1 d2 show ?thesis by simp
qed

text \<open>
  C10. In every division of a report the podium is in ascending order of rank, and
  standings of the same rank are in ascending order of display name.
\<close>

theorem podium_sorted_by_rank_then_name:
  fixes db :: "('t::linorder) database"
  assumes "competition_summary db (Uuid_text cid) f = Inr rep" and "dr \<in> set (cr_divisions rep)"
    and "distinct (map d_id (divisions db))"
  shows "sorted_wrt podium_le (podium dr)"
proof -
  let ?K = "\<lambda>r. (pr_division_name r, pr_rank r, pr_user_display_name r)"
  let ?rows = "filter (\<lambda>p. pr_division_id p = division_id dr) (final_select db cid 3)"
  have "sorted (map ?K (final_select db cid 3))"
    unfolding final_select_def by (rule sorted_sort_key)
  then have "sorted (map ?K ?rows)" by (rule sorted_filter)
  then have k: "sorted_wrt (\<lambda>r1 r2. ?K r1 \<le> ?K r2) ?rows"
    by (simp add: sorted_map)
  have "sorted_wrt (\<lambda>r1 r2. podium_le (standing_of r1) (standing_of r2)) ?rows"
  proof (rule sorted_wrt_mono_rel [OF _ k])
    fix r1 r2
    assume r1: "r1 \<in> set ?rows" and r2: "r2 \<in> set ?rows" and le: "?K r1 \<le> ?K r2"
    from r1 r2 have "r1 \<in> set (ranked db cid)" "r2 \<in> set (ranked db cid)"
      "pr_division_id r1 = pr_division_id r2"
      by (simp_all add: final_select_set)
    from division_name_of_id [OF assms(3) this]
    have "pr_division_name r1 = pr_division_name r2" .
    with le show "podium_le (standing_of r1) (standing_of r2)"
      unfolding less_eq_pair by (simp add: podium_le_def)
  qed
  then show ?thesis
    by (simp add: podium_of_division [OF assms(1,2)] sorted_wrt_map)
qed

theorem podium_sorted_by_rank_then_name_witness:
  "\<exists>rep dr. competition_summary scenario_tie (Uuid_text 1) None = Inr rep
     \<and> dr \<in> set (cr_divisions rep)
     \<and> map (\<lambda>s. (st_rank s, st_user_display_name s)) (podium dr)
         = [(1, ''Ann''), (2, ''Ben''), (3, ''Sam''), (3, ''Sam''), (3, ''Sam'')]
     \<and> sorted_wrt podium_le (podium dr)"
proof -
  obtain rep where rep: "competition_summary scenario_tie (Uuid_text 1) None = Inr rep"
    using summary_scenario_tie by blast
  then obtain dr where dr: "dr \<in> set (cr_divisions rep)"
    and p: "map (\<lambda>s. (st_rank s, st_user_display_name s)) (podium dr)
         = [(1, ''Ann''), (2, ''Ben''), (3, ''Sam''), (3, ''Sam''), (3, ''Sam'')]"
    unfolding summary_scenario_tie by auto
  have "distinct (map d_id (divisions scenario_tie))" by (simp add: scenario_tie_def)
  from podium_sorted_by_rank_then_name [OF rep dr this] rep dr p show ?thesis
    by (intro exI [of _ rep] exI [of _ dr]) simp
qed


section \<open>The tally of a user in a division\<close>

lemma concat_map_if: "concat (map (\<lambda>x. if P x then [f x] else []) xs) = map f (filter P xs)"
  by (induction xs) simp_all

lemma concat_map_if2:
  "concat (map (\<lambda>x. if P x then (if Q then [f x] else []) else []) xs)
     = map f (filter (\<lambda>x. P x \<and> Q) xs)"
  by (induction xs) simp_all

text \<open>The two joins of the procedure, one block of rows per row of the outer table.\<close>

lemma division_problems_concat:
  "division_problems db cid =
     concat (map (\<lambda>p. map (\<lambda>d. \<lparr>dp_problem_id = p_id p, dp_division_id = d_id d,
                                   dp_division_name = d_name d\<rparr>)
                        (filter (\<lambda>d. p_division_id p = Some (d_id d) \<and> p_competition_id p = cid)
                                (divisions db)))
                 (problems db))"
  by (simp add: division_problems_def concat_map_if2)

lemma per_user_join_concat:
  "per_user_join db cid =
     concat (map (\<lambda>dp. map (Pair dp) (filter (\<lambda>a. a_problem_id a = dp_problem_id dp) (ascents db)))
                 (division_problems db cid))"
  by (simp add: per_user_join_def concat_map_if)

lemma length_filter_key_le1:
  assumes "distinct (map f xs)"
  shows "length (filter (\<lambda>x. v = Some (f x) \<and> Q) xs) \<le> 1"
  using assms
proof (induction xs)
  case Nil
  then show ?case by simp
next
  case (Cons x xs)
  have "filter (\<lambda>y. v = Some (f y) \<and> Q) xs = []" if "v = Some (f x)"
    using that Cons.prems by (auto simp: filter_empty_conv)
  with Cons show ?case by auto
qed

lemma concat_map_blocks:
  assumes "\<And>x. g x = (if P x then [f x] else [])"
  shows "concat (map g xs) = map f (filter P xs)"
  by (induction xs) (simp_all add: assms)

lemma division_problems_distinct:
  assumes "distinct (map d_id (divisions db))" and "distinct (map p_id (problems db))"
  shows "distinct (map dp_problem_id (division_problems db cid))"
proof -
  let ?m = "\<lambda>p d. p_division_id p = Some (d_id d) \<and> p_competition_id p = cid"
  let ?g = "\<lambda>p. map dp_problem_id (map (\<lambda>d. \<lparr>dp_problem_id = p_id p, dp_division_id = d_id d,
                 dp_division_name = d_name d\<rparr>) (filter (?m p) (divisions db)))"
  have blk: "?g p = (if filter (?m p) (divisions db) \<noteq> [] then [p_id p] else [])" for p
  proof -
    have "length (filter (?m p) (divisions db)) \<le> 1"
      using assms(1) by (rule length_filter_key_le1)
    then consider "filter (?m p) (divisions db) = []" | d where "filter (?m p) (divisions db) = [d]"
      by (cases "filter (?m p) (divisions db)") (auto simp: le_Suc_eq)
    then show ?thesis by cases simp_all
  qed
  have "concat (map ?g (problems db))
      = map p_id (filter (\<lambda>p. filter (?m p) (divisions db) \<noteq> []) (problems db))"
    using blk by (rule concat_map_blocks)
  then have "map dp_problem_id (division_problems db cid)
      = map p_id (filter (\<lambda>p. filter (?m p) (divisions db) \<noteq> []) (problems db))"
    by (simp only: division_problems_concat map_concat map_map comp_def)
  then show ?thesis using assms(2) by (simp add: distinct_map_filter)
qed

lemma group_rows_concat:
  "map snd (filter (\<lambda>r. group_key r = (did, dn, uid))
              (concat (map (\<lambda>dp. map (Pair dp) (filter (\<lambda>a. a_problem_id a = dp_problem_id dp) as)) dps)))
   = concat (map (\<lambda>dp. filter (\<lambda>a. a_problem_id a = dp_problem_id dp \<and> a_user_id a = uid) as)
                 (filter (\<lambda>dp. dp_division_id dp = did \<and> dp_division_name dp = dn) dps))"
proof (induction dps)
  case Nil
  then show ?case by simp
next
  case (Cons dp dps)
  have "map snd (filter (\<lambda>r. group_key r = (did, dn, uid))
                   (map (Pair dp) (filter (\<lambda>a. a_problem_id a = dp_problem_id dp) as)))
        = (if dp_division_id dp = did \<and> dp_division_name dp = dn
           then filter (\<lambda>a. a_problem_id a = dp_problem_id dp \<and> a_user_id a = uid) as else [])"
    by (induction as) (auto simp: group_key_def)
  with Cons show ?case by simp
qed

lemma mset_filter_insert:
  assumes "x \<notin> S"
  shows "mset (filter (\<lambda>a. g a = x \<and> Q a) as) + mset (filter (\<lambda>a. g a \<in> S \<and> Q a) as)
       = mset (filter (\<lambda>a. g a \<in> insert x S \<and> Q a) as)"
  using assms by (induction as) auto

lemma mset_concat_filters:
  assumes "distinct (map k dps)"
  shows "mset (concat (map (\<lambda>dp. filter (\<lambda>a. g a = k dp \<and> Q a) as) dps))
       = mset (filter (\<lambda>a. g a \<in> k ` set dps \<and> Q a) as)"
  using assms
proof (induction dps)
  case Nil
  then show ?case by simp
next
  case (Cons dp dps)
  then have "k dp \<notin> k ` set dps" and "distinct (map k dps)" by auto
  with Cons.IH mset_filter_insert [of "k dp" "k ` set dps" g Q as] show ?case by simp
qed

lemma division_problem_ids:
  assumes "distinct (map d_id (divisions db))" and "d \<in> set (divisions db)"
  shows "dp_problem_id ` set (filter (\<lambda>dp. dp_division_id dp = d_id d \<and> dp_division_name dp = d_name d)
                               (division_problems db cid))
       = {p_id p | p. p \<in> set (problems db) \<and> p_competition_id p = cid
                      \<and> p_division_id p = Some (d_id d)}"
proof (intro set_eqI iffI)
  fix x
  assume "x \<in> dp_problem_id ` set (filter (\<lambda>dp. dp_division_id dp = d_id d \<and> dp_division_name dp = d_name d)
                               (division_problems db cid))"
  then obtain dp where dp: "dp \<in> set (division_problems db cid)" "dp_division_id dp = d_id d"
    "x = dp_problem_id dp" by auto
  from dp(1) obtain p and d' :: "'a divisions_row" where p: "p \<in> set (problems db)"
    "p_division_id p = Some (d_id d')" "p_competition_id p = cid"
    and dpe: "dp = \<lparr>dp_problem_id = p_id p, dp_division_id = d_id d', dp_division_name = d_name d'\<rparr>"
    unfolding division_problems_iff by blast
  from dp(2) dpe have "d_id d' = d_id d" by simp
  with p dp(3) dpe show "x \<in> {p_id p | p. p \<in> set (problems db) \<and> p_competition_id p = cid
                      \<and> p_division_id p = Some (d_id d)}"
    by auto
next
  fix x
  assume "x \<in> {p_id p | p. p \<in> set (problems db) \<and> p_competition_id p = cid
                      \<and> p_division_id p = Some (d_id d)}"
  then obtain p where p: "p \<in> set (problems db)" "p_competition_id p = cid"
    "p_division_id p = Some (d_id d)" "x = p_id p" by auto
  let ?dp = "\<lparr>dp_problem_id = p_id p, dp_division_id = d_id d, dp_division_name = d_name d\<rparr>"
  have "?dp \<in> set (division_problems db cid)"
    unfolding division_problems_iff using p assms(2) by blast
  then show "x \<in> dp_problem_id ` set (filter (\<lambda>dp. dp_division_id dp = d_id d \<and> dp_division_name dp = d_name d)
                               (division_problems db cid))"
    using p(4) by (intro image_eqI [of _ _ ?dp]) simp_all
qed

text \<open>The rows of a group are, up to their order, the ascents of the user in the division.\<close>

lemma group_rows_mset:
  assumes "distinct (map d_id (divisions db))" and "distinct (map p_id (problems db))"
    and "d \<in> set (divisions db)"
  shows "mset (map snd (filter (\<lambda>r. group_key r = (d_id d, d_name d, uid)) (per_user_join db cid)))
       = mset (user_ascents db cid (d_id d) uid)"
proof -
  let ?dps = "filter (\<lambda>dp. dp_division_id dp = d_id d \<and> dp_division_name dp = d_name d)
                (division_problems db cid)"
  have dist: "distinct (map dp_problem_id ?dps)"
    using division_problems_distinct [OF assms(1,2)] by (rule distinct_map_filter)
  have "mset (map snd (filter (\<lambda>r. group_key r = (d_id d, d_name d, uid)) (per_user_join db cid)))
      = mset (concat (map (\<lambda>dp. filter (\<lambda>a. a_problem_id a = dp_problem_id dp \<and> a_user_id a = uid)
                                     (ascents db)) ?dps))"
    by (simp only: per_user_join_concat group_rows_concat)
  also have "\<dots> = mset (filter (\<lambda>a. a_problem_id a \<in> dp_problem_id ` set ?dps \<and> a_user_id a = uid)
                          (ascents db))"
    using dist by (rule mset_concat_filters)
  also have "filter (\<lambda>a. a_problem_id a \<in> dp_problem_id ` set ?dps \<and> a_user_id a = uid) (ascents db)
           = user_ascents db cid (d_id d) uid"
    unfolding user_ascents_def division_problem_ids [OF assms(1,3)]
  proof (rule filter_cong)
    fix a
    show "(a_problem_id a \<in> {p_id p | p. p \<in> set (problems db) \<and> p_competition_id p = cid
                                  \<and> p_division_id p = Some (d_id d)} \<and> a_user_id a = uid)
        = (a_user_id a = uid \<and> (\<exists>p\<in>set (problems db). p_id p = a_problem_id a
               \<and> p_competition_id p = cid \<and> p_division_id p = Some (d_id d)))"
      unfolding mem_Collect_eq by (metis (no_types))
  qed simp
  finally show ?thesis .
qed

lemma coalesce_sql_sum: "coalesce (sql_sum vs) 0 = sum_list (map (\<lambda>v. coalesce v 0) vs)"
proof (induction vs rule: sql_sum.induct)
  case 1
  then show ?case by (simp add: coalesce_def)
next
  case (2 vs)
  then show ?case by (simp add: coalesce_def)
next
  case (3 v vs)
  then show ?case by (simp add: coalesce_def split: option.splits)
qed

lemma tally_mset:
  assumes "mset rows = mset rows'"
  shows "tally g rows = tally g rows'"
proof -
  have c: "count_filter c rows = count_filter c rows'" for c :: "ascents_row \<Rightarrow> bool"
  proof -
    have "mset (filter c rows) = mset (filter c rows')" using assms by simp
    then have "length (filter c rows) = length (filter c rows')" by (rule mset_eq_length)
    then show ?thesis by (simp add: count_filter_def)
  qed
  have s: "coalesce (sql_sum (map f rows)) 0 = coalesce (sql_sum (map f rows')) 0"
    for f :: "ascents_row \<Rightarrow> int option"
  proof -
    have "mset (map (\<lambda>v. coalesce v 0) (map f rows)) = mset (map (\<lambda>v. coalesce v 0) (map f rows'))"
      using assms by simp
    then have "sum_list (map (\<lambda>v. coalesce v 0) (map f rows)) = sum_list (map (\<lambda>v. coalesce v (0::int)) (map f rows'))"
      by (metis sum_mset_sum_list)
    then show ?thesis by (simp only: coalesce_sql_sum)
  qed
  show ?thesis by (cases g) (simp add: tally_def c s)
qed

lemma filter_eq_remdups: "filter (\<lambda>y. y = x) (remdups xs) = (if x \<in> set xs then [x] else [])"
  by (induction xs) auto

lemma division_problems_name:
  assumes "distinct (map d_id (divisions db))" and "d \<in> set (divisions db)"
    and "dp \<in> set (division_problems db cid)" and "dp_division_id dp = d_id d"
  shows "dp_division_name dp = d_name d"
proof -
  from assms(3) obtain p and d' :: "'a divisions_row" where d': "d' \<in> set (divisions db)"
    and p: "p \<in> set (problems db)"
    and dpe: "dp = \<lparr>dp_problem_id = p_id p, dp_division_id = d_id d', dp_division_name = d_name d'\<rparr>"
    unfolding division_problems_iff by blast
  have inj: "inj_on d_id (set (divisions db))" using assms(1) by (simp add: distinct_map)
  have "d' = d" by (rule inj_onD [OF inj]) (use d' assms(2,4) dpe in simp_all)
  then show ?thesis by (simp add: dpe)
qed

lemma tally_fields_fst:
  "pu_division_id (tally g rows) = fst g" "pu_user_id (tally g rows) = snd (snd g)"
  by (cases g; simp)+

lemma tally_user_ascents:
  "tally (did, dn, uid) A =
     \<lparr>pu_division_id = did, pu_division_name = dn, pu_user_id = uid,
      pu_total_tops = int (length (filter a_topped A)),
      pu_total_zones = int (length (filter a_zone A)),
      pu_total_top_attempts = (\<Sum>a\<leftarrow>A. case a_top_attempts a of None \<Rightarrow> 0 | Some n \<Rightarrow> n),
      pu_total_zone_attempts = (\<Sum>a\<leftarrow>A. case a_zone_attempts a of None \<Rightarrow> 0 | Some n \<Rightarrow> n)\<rparr>"
  by (simp add: tally_def count_filter_def coalesce_sql_sum comp_def) (simp add: coalesce_def)

text \<open>The tally rows of a division and a user: none or one, from the user's ascents.\<close>

lemma per_user_of_division_user:
  assumes "distinct (map d_id (divisions db))" and "distinct (map p_id (problems db))"
    and "d \<in> set (divisions db)"
  shows "filter (\<lambda>r. pu_division_id r = d_id d \<and> pu_user_id r = uid) (per_user db cid) =
           (if user_ascents db cid (d_id d) uid = [] then []
            else [tally (d_id d, d_name d, uid) (user_ascents db cid (d_id d) uid)])"
proof -
  let ?J = "per_user_join db cid"
  let ?G = "(d_id d, d_name d, uid)"
  let ?T = "\<lambda>g. tally g (map snd (filter (\<lambda>r. group_key r = g) ?J))"
  let ?A = "user_ascents db cid (d_id d) uid"
  have rows: "mset (map snd (filter (\<lambda>r. group_key r = ?G) ?J)) = mset ?A"
    using assms by (rule group_rows_mset)
  have i: "(fst g = d_id d \<and> snd (snd g) = uid) = (g = ?G)"
    if "g \<in> set (remdups (map group_key ?J))" for g
  proof -
    from that obtain dp a where da: "(dp, a) \<in> set ?J" and g: "g = group_key (dp, a)" by auto
    from da have dp: "dp \<in> set (division_problems db cid)" by (simp add: per_user_join_set)
    show ?thesis
      using division_problems_name [OF assms(1,3) dp] by (auto simp: g group_key_def)
  qed
  have "filter (\<lambda>r. pu_division_id r = d_id d \<and> pu_user_id r = uid) (per_user db cid)
      = map ?T (filter (\<lambda>g. fst g = d_id d \<and> snd (snd g) = uid) (remdups (map group_key ?J)))"
    by (simp add: per_user_def Let_def filter_map comp_def tally_fields_fst)
  also have "filter (\<lambda>g. fst g = d_id d \<and> snd (snd g) = uid) (remdups (map group_key ?J))
           = filter (\<lambda>g. g = ?G) (remdups (map group_key ?J))"
    using i by (intro filter_cong) simp_all
  also have "\<dots> = (if ?G \<in> set (map group_key ?J) then [?G] else [])"
    by (rule filter_eq_remdups)
  also have "?G \<in> set (map group_key ?J) \<longleftrightarrow> ?A \<noteq> []"
  proof -
    have "?G \<in> set (map group_key ?J) \<longleftrightarrow> map snd (filter (\<lambda>r. group_key r = ?G) ?J) \<noteq> []"
      unfolding map_is_Nil_conv filter_empty_conv set_map by (metis (no_types, lifting) image_iff)
    also have "\<dots> \<longleftrightarrow> mset (map snd (filter (\<lambda>r. group_key r = ?G) ?J)) \<noteq> {#}"
      by (simp only: mset_zero_iff)
    also have "\<dots> \<longleftrightarrow> ?A \<noteq> []" by (simp only: rows mset_zero_iff)
    finally show ?thesis .
  qed
  finally have "filter (\<lambda>r. pu_division_id r = d_id d \<and> pu_user_id r = uid) (per_user db cid)
      = (if ?A = [] then [] else [?T ?G])"
    by simp
  moreover have "?T ?G = tally ?G ?A" using rows by (rule tally_mset)
  ultimately show ?thesis by simp
qed

text \<open>
  C4. With the primary keys of \<^verbatim>\<open>divisions\<close> and \<^verbatim>\<open>problems\<close> in force, a division and a user
  have a tally exactly when the user has an ascent on a problem of the division, and then
  exactly one: its tops and zones are the numbers of those ascent rows with
  \<^verbatim>\<open>topped\<close> and with \<^verbatim>\<open>zone\<close>, and its attempts are the sums of \<^verbatim>\<open>top_attempts\<close> and of
  \<^verbatim>\<open>zone_attempts\<close> over those rows, null counting as 0. A ranked row of the division and
  the user carries the same four numbers, and there is none when the user has no ascent
  in the division.
\<close>

theorem tally_is_count_and_sum_of_user_ascents:
  fixes db :: "('t::linorder) database"
  assumes "distinct (map d_id (divisions db))" and "distinct (map p_id (problems db))"
    and "d \<in> set (divisions db)"
  shows "filter (\<lambda>r. pu_division_id r = d_id d \<and> pu_user_id r = uid) (per_user db cid) =
           (if user_ascents db cid (d_id d) uid = [] then []
            else [\<lparr>pu_division_id = d_id d, pu_division_name = d_name d, pu_user_id = uid,
                   pu_total_tops = int (length (filter a_topped (user_ascents db cid (d_id d) uid))),
                   pu_total_zones = int (length (filter a_zone (user_ascents db cid (d_id d) uid))),
                   pu_total_top_attempts =
                     (\<Sum>a\<leftarrow>user_ascents db cid (d_id d) uid.
                        case a_top_attempts a of None \<Rightarrow> 0 | Some n \<Rightarrow> n),
                   pu_total_zone_attempts =
                     (\<Sum>a\<leftarrow>user_ascents db cid (d_id d) uid.
                        case a_zone_attempts a of None \<Rightarrow> 0 | Some n \<Rightarrow> n)\<rparr>])
    \<and> (\<forall>r\<in>set (ranked db cid). pr_division_id r = d_id d \<and> pr_user_id r = uid \<longrightarrow>
          user_ascents db cid (d_id d) uid \<noteq> []
          \<and> pr_total_tops r = int (length (filter a_topped (user_ascents db cid (d_id d) uid)))
          \<and> pr_total_zones r = int (length (filter a_zone (user_ascents db cid (d_id d) uid)))
          \<and> pr_total_top_attempts r =
               (\<Sum>a\<leftarrow>user_ascents db cid (d_id d) uid.
                  case a_top_attempts a of None \<Rightarrow> 0 | Some n \<Rightarrow> n)
          \<and> pr_total_zone_attempts r =
               (\<Sum>a\<leftarrow>user_ascents db cid (d_id d) uid.
                  case a_zone_attempts a of None \<Rightarrow> 0 | Some n \<Rightarrow> n))"
proof (intro conjI ballI impI)
  let ?A = "user_ascents db cid (d_id d) uid"
  have f: "filter (\<lambda>r. pu_division_id r = d_id d \<and> pu_user_id r = uid) (per_user db cid) =
           (if ?A = [] then [] else [tally (d_id d, d_name d, uid) ?A])"
    using assms by (rule per_user_of_division_user)
  then show "filter (\<lambda>r. pu_division_id r = d_id d \<and> pu_user_id r = uid) (per_user db cid) =
           (if ?A = [] then []
            else [\<lparr>pu_division_id = d_id d, pu_division_name = d_name d, pu_user_id = uid,
                   pu_total_tops = int (length (filter a_topped ?A)),
                   pu_total_zones = int (length (filter a_zone ?A)),
                   pu_total_top_attempts =
                     (\<Sum>a\<leftarrow>?A. case a_top_attempts a of None \<Rightarrow> 0 | Some n \<Rightarrow> n),
                   pu_total_zone_attempts =
                     (\<Sum>a\<leftarrow>?A. case a_zone_attempts a of None \<Rightarrow> 0 | Some n \<Rightarrow> n)\<rparr>])"
    by (simp only: tally_user_ascents)
  fix r
  assume r: "r \<in> set (ranked db cid)" and h: "pr_division_id r = d_id d \<and> pr_user_id r = uid"
  from r obtain p u rnk where pu: "(p, u) \<in> set (ranked_join db cid)"
    and re: "r = ranked_row cid ((p, u), rnk)"
    by (rule ranked_elem)
  from pu have p: "p \<in> set (per_user db cid)" and u: "u_id u = pu_user_id p"
    by (auto simp: ranked_join_set)
  from h re u have "pu_division_id p = d_id d \<and> pu_user_id p = uid" by simp
  with p have "p \<in> set (filter (\<lambda>r. pu_division_id r = d_id d \<and> pu_user_id r = uid) (per_user db cid))"
    by simp
  then have ne: "?A \<noteq> []" and pe: "p = tally (d_id d, d_name d, uid) ?A"
    unfolding f by (auto split: if_splits)
  show "?A \<noteq> []" by (rule ne)
  have t: "pr_total_tops r = pu_total_tops p" "pr_total_zones r = pu_total_zones p"
    "pr_total_top_attempts r = pu_total_top_attempts p"
    "pr_total_zone_attempts r = pu_total_zone_attempts p"
    by (simp_all add: re ranked_row_def)
  show "pr_total_tops r = int (length (filter a_topped ?A))"
    by (simp add: t pe tally_user_ascents)
  show "pr_total_zones r = int (length (filter a_zone ?A))"
    by (simp add: t pe tally_user_ascents)
  show "pr_total_top_attempts r = (\<Sum>a\<leftarrow>?A. case a_top_attempts a of None \<Rightarrow> 0 | Some n \<Rightarrow> n)"
    by (simp add: t pe tally_user_ascents)
  show "pr_total_zone_attempts r = (\<Sum>a\<leftarrow>?A. case a_zone_attempts a of None \<Rightarrow> 0 | Some n \<Rightarrow> n)"
    by (simp add: t pe tally_user_ascents)
qed

theorem tally_is_count_and_sum_of_user_ascents_witness:
  "filter (\<lambda>r. pu_division_id r = 1 \<and> pu_user_id r = 1) (per_user scenario_B 1) =
     [\<lparr>pu_division_id = 1, pu_division_name = ''Open'', pu_user_id = 1, pu_total_tops = 2,
       pu_total_zones = 1, pu_total_top_attempts = 3, pu_total_zone_attempts = 1\<rparr>]
   \<and> filter (\<lambda>r. pu_division_id r = 10 \<and> pu_user_id r = 2) (per_user scenario_CDE 1) = []
   \<and> \<not> (\<exists>r\<in>set (ranked scenario_CDE 1). pr_division_id r = 10 \<and> pr_user_id r = 2)"
proof -
  let ?b = "\<lparr>d_id = 1, d_competition_id = 1, d_name = ''Open'', d_sort_order = None\<rparr>"
  let ?c = "\<lparr>d_id = 10, d_competition_id = 1, d_name = ''Open'', d_sort_order = Some 1\<rparr>"
  have b: "distinct (map d_id (divisions scenario_B))" "distinct (map p_id (problems scenario_B))"
    "?b \<in> set (divisions scenario_B)"
    by (simp_all add: scenario_B_def)
  have c: "distinct (map d_id (divisions scenario_CDE))" "distinct (map p_id (problems scenario_CDE))"
    "?c \<in> set (divisions scenario_CDE)"
    by (simp_all add: scenario_CDE_def)
  have ab: "user_ascents scenario_B 1 (d_id ?b) 1 =
      [\<lparr>a_problem_id = 1, a_user_id = 1, a_topped = True, a_top_attempts = Some 1,
            a_zone = True, a_zone_attempts = Some 1\<rparr>,
         \<lparr>a_problem_id = 2, a_user_id = 1, a_topped = True, a_top_attempts = Some 2,
            a_zone = False, a_zone_attempts = None\<rparr>]"
    by (simp add: user_ascents_def scenario_B_def)
  have ac: "user_ascents scenario_CDE 1 (d_id ?c) 2 = []"
    by (simp add: user_ascents_def scenario_CDE_def)
  have 1: "filter (\<lambda>r. pu_division_id r = 1 \<and> pu_user_id r = 1) (per_user scenario_B 1) =
     [\<lparr>pu_division_id = 1, pu_division_name = ''Open'', pu_user_id = 1, pu_total_tops = 2,
       pu_total_zones = 1, pu_total_top_attempts = 3, pu_total_zone_attempts = 1\<rparr>]"
    using tally_is_count_and_sum_of_user_ascents [OF b, of 1 1, THEN conjunct1]
    unfolding ab by simp
  have 2: "filter (\<lambda>r. pu_division_id r = 10 \<and> pu_user_id r = 2) (per_user scenario_CDE 1) = []"
    using tally_is_count_and_sum_of_user_ascents [OF c, of 2 1, THEN conjunct1]
    unfolding ac by simp
  have 3: "\<not> (\<exists>r\<in>set (ranked scenario_CDE 1). pr_division_id r = 10 \<and> pr_user_id r = 2)"
    using tally_is_count_and_sum_of_user_ascents [OF c, of 2 1, THEN conjunct2]
    unfolding ac by simp
  from 1 2 3 show ?thesis by (intro conjI)
qed


section \<open>Problems without division\<close>

lemma without_problems_tables [simp]:
  "users (without_problems db X) = users db"
  "competitions (without_problems db X) = competitions db"
  "divisions (without_problems db X) = divisions db"
  "competition_participants (without_problems db X) = competition_participants db"
  "problems (without_problems db X) = [p \<leftarrow> problems db. p_id p \<notin> X]"
  "ascents (without_problems db X) = [a \<leftarrow> ascents db. a_problem_id a \<notin> X]"
  by (simp_all add: without_problems_def)

lemma blocks_eq:
  assumes "\<And>p. p \<in> set ps \<Longrightarrow> \<not> P p \<Longrightarrow> g p = []"
    and "\<And>p. p \<in> set ps \<Longrightarrow> P p \<Longrightarrow> g' p = g p"
  shows "concat (map g' (filter P ps)) = concat (map g ps)"
  using assms by (induction ps) auto

lemma filter_ascents_kept:
  assumes "k \<notin> X"
  shows "filter (\<lambda>a. a_problem_id a = k \<and> Q a) (filter (\<lambda>a. a_problem_id a \<notin> X) as)
       = filter (\<lambda>a. a_problem_id a = k \<and> Q a) as"
  using assms by (induction as) auto

lemma filter_ascents_kept':
  assumes "k \<notin> X"
  shows "filter (\<lambda>a. a_problem_id a = k) (filter (\<lambda>a. a_problem_id a \<notin> X) as)
       = filter (\<lambda>a. a_problem_id a = k) as"
  using filter_ascents_kept [OF assms, of "\<lambda>_. True"] by simp

lemma division_problems_without:
  assumes "\<forall>p\<in>set (problems db). p_id p \<in> X \<longrightarrow> p_division_id p = None"
  shows "division_problems (without_problems db X) cid = division_problems db cid"
  unfolding division_problems_concat without_problems_tables
  by (rule blocks_eq) (use assms in auto)

lemma division_problems_kept:
  assumes "\<forall>p\<in>set (problems db). p_id p \<in> X \<longrightarrow> p_division_id p = None"
    and "dp \<in> set (division_problems db cid)"
  shows "dp_problem_id dp \<notin> X"
  using assms unfolding division_problems_iff by auto

lemma per_user_join_without:
  assumes "\<forall>p\<in>set (problems db). p_id p \<in> X \<longrightarrow> p_division_id p = None"
  shows "per_user_join (without_problems db X) cid = per_user_join db cid"
proof -
  have "map (\<lambda>dp. map (Pair dp) (filter (\<lambda>a. a_problem_id a = dp_problem_id dp)
                                  (filter (\<lambda>a. a_problem_id a \<notin> X) (ascents db))))
            (division_problems db cid)
      = map (\<lambda>dp. map (Pair dp) (filter (\<lambda>a. a_problem_id a = dp_problem_id dp) (ascents db)))
            (division_problems db cid)"
  proof (rule map_cong [OF refl])
    fix dp
    assume "dp \<in> set (division_problems db cid)"
    with assms have k: "dp_problem_id dp \<notin> X" by (rule division_problems_kept)
    show "map (Pair dp) (filter (\<lambda>a. a_problem_id a = dp_problem_id dp)
                                  (filter (\<lambda>a. a_problem_id a \<notin> X) (ascents db)))
        = map (Pair dp) (filter (\<lambda>a. a_problem_id a = dp_problem_id dp) (ascents db))"
      by (simp only: filter_ascents_kept' [OF k])
  qed
  then show ?thesis
    by (simp only: per_user_join_concat division_problems_without [OF assms] without_problems_tables)
qed

lemma per_user_without:
  assumes "\<forall>p\<in>set (problems db). p_id p \<in> X \<longrightarrow> p_division_id p = None"
  shows "per_user (without_problems db X) cid = per_user db cid"
  by (simp only: per_user_def per_user_join_without [OF assms])

lemma final_select_without:
  fixes db :: "('t::linorder) database"
  assumes "\<forall>p\<in>set (problems db). p_id p \<in> X \<longrightarrow> p_division_id p = None"
  shows "final_select (without_problems db X) cid n
       = final_select db cid n"
  by (simp only: final_select_def ranked_def ranked_join_def
        per_user_without [OF assms] without_problems_tables)

lemma du_without:
  assumes "\<forall>p\<in>set (problems db). p_id p \<in> X \<longrightarrow> p_division_id p = None"
  shows "du (without_problems db X) cid d = du db cid d"
proof -
  let ?C = "\<lambda>p. p_competition_id p = cid \<and> p_division_id p = Some (d_id d)"
  have c: "[a_user_id a. p \<leftarrow> ps, a \<leftarrow> as, a_problem_id a = p_id p, ?C p]
         = concat (map (\<lambda>p. map a_user_id (filter (\<lambda>a. a_problem_id a = p_id p \<and> ?C p) as)) ps)"
    for ps :: "problems_row list" and as
    by (simp add: concat_map_if2)
  have "concat (map (\<lambda>p. map a_user_id (filter (\<lambda>a. a_problem_id a = p_id p \<and> ?C p)
                                           (filter (\<lambda>a. a_problem_id a \<notin> X) (ascents db))))
                    (filter (\<lambda>p. p_id p \<notin> X) (problems db)))
      = concat (map (\<lambda>p. map a_user_id (filter (\<lambda>a. a_problem_id a = p_id p \<and> ?C p) (ascents db)))
                    (problems db))"
  proof (rule blocks_eq)
    fix p
    assume "p \<in> set (problems db)" and "\<not> p_id p \<notin> X"
    with assms have "\<not> ?C p" by auto
    then show "map a_user_id (filter (\<lambda>a. a_problem_id a = p_id p \<and> ?C p) (ascents db)) = []"
      by simp
  next
    fix p
    assume k: "p_id p \<notin> X"
    show "map a_user_id (filter (\<lambda>a. a_problem_id a = p_id p \<and> ?C p)
                                       (filter (\<lambda>a. a_problem_id a \<notin> X) (ascents db)))
             = map a_user_id (filter (\<lambda>a. a_problem_id a = p_id p \<and> ?C p) (ascents db))"
      by (simp only: filter_ascents_kept [OF k])
  qed
  then show ?thesis
    unfolding du_def c without_problems_tables by simp
qed

lemma problems_of_division_without:
  assumes "\<forall>p\<in>set (problems db). p_id p \<in> X \<longrightarrow> p_division_id p = None"
  shows "[p \<leftarrow> problems (without_problems db X). p_competition_id p = cid \<and> p_division_id p = Some x]
       = [p \<leftarrow> problems db. p_competition_id p = cid \<and> p_division_id p = Some x]"
  unfolding without_problems_tables filter_filter
  by (rule filter_cong) (use assms in auto)

lemma left_join_fst:
  assumes "pa \<in> set (case filter (\<lambda>a. a_problem_id a = p_id p) as of
                        [] \<Rightarrow> [(p, None)] | bs \<Rightarrow> map (\<lambda>a. (p, Some a)) bs)"
  shows "fst pa = p"
  using assms by (auto split: list.splits)

lemma counted_rows_without:
  assumes "\<forall>p\<in>set (problems db). p_id p \<in> X \<longrightarrow> p_division_id p = None"
  shows "[pa \<leftarrow> problems_left_join_ascents (without_problems db X).
            p_competition_id (fst pa) = cid \<and> p_division_id (fst pa) = Some x \<and> is_true col (snd pa)]
       = [pa \<leftarrow> problems_left_join_ascents db.
            p_competition_id (fst pa) = cid \<and> p_division_id (fst pa) = Some x \<and> is_true col (snd pa)]"
proof -
  let ?Q = "\<lambda>pa. p_competition_id (fst pa) = cid \<and> p_division_id (fst pa) = Some x \<and> is_true col (snd pa)"
  let ?L = "\<lambda>as p. case filter (\<lambda>a. a_problem_id a = p_id p) as of
                      [] \<Rightarrow> [(p, None)] | bs \<Rightarrow> map (\<lambda>a. (p, Some a)) bs"
  have "concat (map (\<lambda>p. filter ?Q (?L (filter (\<lambda>a. a_problem_id a \<notin> X) (ascents db)) p))
                    (filter (\<lambda>p. p_id p \<notin> X) (problems db)))
      = concat (map (\<lambda>p. filter ?Q (?L (ascents db) p)) (problems db))"
  proof (rule blocks_eq)
    fix p
    assume "p \<in> set (problems db)" and "\<not> p_id p \<notin> X"
    with assms have "p_division_id p = None" by auto
    then have "\<not> ?Q pa" if "pa \<in> set (?L (ascents db) p)" for pa
      using left_join_fst [OF that] by simp
    then show "filter ?Q (?L (ascents db) p) = []"
      by (simp only: filter_empty_conv) blast
  next
    fix p
    assume k: "p_id p \<notin> X"
    show "filter ?Q (?L (filter (\<lambda>a. a_problem_id a \<notin> X) (ascents db)) p)
             = filter ?Q (?L (ascents db) p)"
      by (simp only: filter_ascents_kept' [OF k])
  qed
  then show ?thesis
    by (simp only: problems_left_join_ascents_def filter_concat map_map comp_def
          without_problems_tables)
qed

lemma summary_row_without:
  assumes "\<forall>p\<in>set (problems db). p_id p \<in> X \<longrightarrow> p_division_id p = None"
  shows "summary_row (without_problems db X) cid d = summary_row db cid d"
  by (simp only: summary_row_def du_without [OF assms] problems_of_division_without [OF assms]
        counted_rows_without [OF assms])

text \<open>
  C8. Problems without division and the ascents on them contribute nothing: when every
  problem whose identifier is in \<open>X\<close> has a null division (with the primary key of
  \<^verbatim>\<open>problems\<close>, \<open>X\<close> can be the identifier of any one such problem), deleting the problems
  of \<open>X\<close> and all ascents on them changes neither the report (every division's counts,
  totals and podium), nor any tally, nor any row of the procedure.
\<close>

theorem unassigned_problems_contribute_nothing:
  fixes db :: "('t::linorder) database"
  assumes "\<forall>p\<in>set (problems db). p_id p \<in> X \<longrightarrow> p_division_id p = None"
  shows "competition_summary (without_problems db X) id_param f = competition_summary db id_param f
    \<and> per_user (without_problems db X) cid = per_user db cid
    \<and> competition_division_podiums (without_problems db X) cid n
        = competition_division_podiums db cid n"
proof (intro conjI)
  have cdp: "competition_division_podiums (without_problems db X) c m
           = competition_division_podiums db c m" for c m
    by (simp only: competition_division_podiums_def final_select_without [OF assms])
  have "summary_row (without_problems db X) c = summary_row db c" for c
    by (rule ext) (rule summary_row_without [OF assms])
  then have sm: "summaries (without_problems db X) c f = summaries db c f" for c
    by (simp only: summaries_def summarySql_def without_problems_tables)
  have pr: "podiumRows (without_problems db X) c f = podiumRows db c f" for c
    by (simp only: podiumRows_def cdp)
  show "competition_summary (without_problems db X) id_param f = competition_summary db id_param f"
    by (simp only: competition_summary_def sm pr without_problems_tables)
  show "per_user (without_problems db X) cid = per_user db cid"
    using assms by (rule per_user_without)
  show "competition_division_podiums (without_problems db X) cid n
        = competition_division_podiums db cid n"
    by (rule cdp)
qed

theorem unassigned_problems_contribute_nothing_witness:
  "problems (without_problems scenario_CDE {3}) =
     [\<lparr>p_id = 1, p_competition_id = 1, p_division_id = Some 10\<rparr>,
      \<lparr>p_id = 2, p_competition_id = 1, p_division_id = Some 11\<rparr>]
   \<and> map a_problem_id (ascents (without_problems scenario_CDE {3})) = [1, 1]
   \<and> competition_summary (without_problems scenario_CDE {3}) (Uuid_text 1) None
       = competition_summary scenario_CDE (Uuid_text 1) None
   \<and> per_user (without_problems scenario_CDE {3}) 1 = per_user scenario_CDE 1"
proof -
  have h: "\<forall>p\<in>set (problems scenario_CDE). p_id p \<in> {3} \<longrightarrow> p_division_id p = None"
    by (simp add: scenario_CDE_def)
  have 1: "problems (without_problems scenario_CDE {3}) =
     [\<lparr>p_id = 1, p_competition_id = 1, p_division_id = Some 10\<rparr>,
      \<lparr>p_id = 2, p_competition_id = 1, p_division_id = Some 11\<rparr>]"
    and 2: "map a_problem_id (ascents (without_problems scenario_CDE {3})) = [1, 1]"
    by (simp_all add: scenario_CDE_def)
  from unassigned_problems_contribute_nothing
         [OF h, where id_param = "Uuid_text 1" and f = None and cid = 1 and n = 3] 1 2
  show ?thesis by blast
qed


end
